theory Spec2Isabelle
  imports Complex_Main
begin

section \<open>Numbers and arrays of the notebook\<close>

text \<open>
  The RBM class of \<^verbatim>\<open>RBF_note.ipynb\<close> computes on numpy float64 arrays. A float is
  a finite value or one of the three special values that numpy produces without
  raising (overflow and division by zero give \<open>inf\<close> or \<open>nan\<close> with a warning only).
  The operations of the array arithmetic (\<open>+\<close>, \<open>-\<close>, \<open>*\<close>, \<open>/\<close>, the sums
  and products inside \<open>np.dot\<close>, \<open>np.exp\<close>) return the exact result rounded to
  the nearest double, ties to even, and \<open>inf\<close> when that is beyond the largest
  double. \<open>np.exp\<close>, a library function accurate to about one unit in the last
  place, is taken as the correctly rounded exponential; \<open>np.dot\<close> sums in index
  order. Zero has no sign; the only divisor
  of the class that can be zero is the example count, a non-negative Python int,
  so a zero divisor is \<open>+0.0\<close>.
\<close>

datatype npfloat = Fin real | PInf | NInf | NaN

datatype error = ValueError | IndexError | ZeroDivisionError

text \<open>
  Rounding to binary64. A double is a multiple of its unit in the last place, which
  is \<open>2 ^ (e - 52)\<close> for a value in the binade \<open>2 ^ e\<close> and \<open>2 ^ -1074\<close> below the
  smallest normal binade; \<open>rne\<close> rounds a quotient to the nearest integer, a tie to
  the even one.
\<close>

definition rne :: "real \<Rightarrow> int" where
  "rne q = (let f = \<lfloor>q\<rfloor> in
            if q - of_int f < 1 / 2 then f
            else if 1 / 2 < q - of_int f then f + 1
            else if even f then f else f + 1)"

definition bexp :: "real \<Rightarrow> int" where
  "bexp x = max \<lfloor>log 2 \<bar>x\<bar>\<rfloor> (- 1022)"

definition ulp :: "real \<Rightarrow> real" where
  "ulp x = 2 powr of_int (bexp x - 52)"

definition rval :: "real \<Rightarrow> real" where
  "rval x = of_int (rne (x / ulp x)) * ulp x"

definition round64 :: "real \<Rightarrow> npfloat" where
  "round64 x =
     (if x = 0 then Fin 0
      else if 2 ^ 1024 \<le> \<bar>rval x\<bar> then (if 0 < x then PInf else NInf)
      else Fin (rval x))"

fun fneg :: "npfloat \<Rightarrow> npfloat" where
  "fneg (Fin a) = Fin (- a)"
| "fneg PInf = NInf"
| "fneg NInf = PInf"
| "fneg NaN = NaN"

fun fadd :: "npfloat \<Rightarrow> npfloat \<Rightarrow> npfloat" where
  "fadd (Fin a) (Fin b) = round64 (a + b)"
| "fadd NaN _ = NaN"
| "fadd _ NaN = NaN"
| "fadd PInf NInf = NaN"
| "fadd NInf PInf = NaN"
| "fadd PInf _ = PInf"
| "fadd NInf _ = NInf"
| "fadd _ PInf = PInf"
| "fadd _ NInf = NInf"

definition fsub :: "npfloat \<Rightarrow> npfloat \<Rightarrow> npfloat" where
  "fsub a b = fadd a (fneg b)"

definition inf_of_sign :: "real \<Rightarrow> npfloat" where
  "inf_of_sign a = (if a = 0 then NaN else if 0 < a then PInf else NInf)"

fun fmul :: "npfloat \<Rightarrow> npfloat \<Rightarrow> npfloat" where
  "fmul (Fin a) (Fin b) = round64 (a * b)"
| "fmul NaN _ = NaN"
| "fmul _ NaN = NaN"
| "fmul (Fin a) PInf = inf_of_sign a"
| "fmul (Fin a) NInf = inf_of_sign (- a)"
| "fmul PInf (Fin b) = inf_of_sign b"
| "fmul NInf (Fin b) = inf_of_sign (- b)"
| "fmul PInf PInf = PInf"
| "fmul NInf NInf = PInf"
| "fmul PInf NInf = NInf"
| "fmul NInf PInf = NInf"

fun fdiv :: "npfloat \<Rightarrow> npfloat \<Rightarrow> npfloat" where
  "fdiv (Fin a) (Fin b) = (if b = 0 then inf_of_sign a else round64 (a / b))"
| "fdiv NaN _ = NaN"
| "fdiv _ NaN = NaN"
| "fdiv (Fin a) _ = Fin 0"
| "fdiv PInf (Fin b) = (if 0 \<le> b then PInf else NInf)"
| "fdiv NInf (Fin b) = (if 0 \<le> b then NInf else PInf)"
| "fdiv _ _ = NaN"

fun fexp :: "npfloat \<Rightarrow> npfloat" where
  "fexp (Fin a) = round64 (exp a)"
| "fexp PInf = PInf"
| "fexp NInf = Fin 0"
| "fexp NaN = NaN"

text \<open>\<open>a > b\<close> on floats; every comparison with \<open>nan\<close> is false.\<close>

fun fgt :: "npfloat \<Rightarrow> npfloat \<Rightarrow> bool" where
  "fgt (Fin a) (Fin b) = (b < a)"
| "fgt NaN _ = False"
| "fgt _ NaN = False"
| "fgt PInf PInf = False"
| "fgt PInf _ = True"
| "fgt NInf _ = False"
| "fgt _ NInf = True"
| "fgt _ PInf = False"

text \<open>\<open>a <= b\<close> on floats, for stating that a function does not decrease.\<close>

fun fle :: "npfloat \<Rightarrow> npfloat \<Rightarrow> bool" where
  "fle (Fin a) (Fin b) = (a \<le> b)"
| "fle NaN _ = False"
| "fle _ NaN = False"
| "fle NInf _ = True"
| "fle _ PInf = True"
| "fle _ _ = False"

text \<open>A bool stored into a float array, or multiplied with one: \<open>True\<close> is 1.0.\<close>

definition of_flag :: "bool \<Rightarrow> npfloat" where
  "of_flag b = (if b then Fin 1 else Fin 0)"

text \<open>
  \<open>_logistic(self, x)\<close> and the notebook's free function \<open>logistic(z)\<close>:
  \<^verbatim>\<open>1.0 / (1 + np.exp(-x))\<close>, here on one cell.
\<close>

definition logistic :: "npfloat \<Rightarrow> npfloat" where
  "logistic x = fdiv (Fin 1) (fadd (Fin 1) (fexp (fneg x)))"

text \<open>
  A two-dimensional ndarray: its rows, and its column count (which a list of rows
  alone loses when there are no rows). numpy arrays are rectangular.
\<close>

record 'a ndarray =
  ncols :: nat
  rws :: "'a list list"

definition nrows :: "'a ndarray \<Rightarrow> nat" where
  "nrows A = length (rws A)"

definition np_shape :: "'a ndarray \<Rightarrow> nat \<times> nat" where
  "np_shape A = (nrows A, ncols A)"

definition rect :: "'a ndarray \<Rightarrow> bool" where
  "rect A = list_all (\<lambda>r. length r = ncols A) (rws A)"


definition map_cells :: "('a \<Rightarrow> 'b) \<Rightarrow> 'a ndarray \<Rightarrow> 'b ndarray" where
  "map_cells f A = \<lparr>ncols = ncols A, rws = map (map f) (rws A)\<rparr>"

definition all_cells :: "('a \<Rightarrow> bool) \<Rightarrow> 'a ndarray \<Rightarrow> bool" where
  "all_cells P A = list_all (list_all P) (rws A)"

definition np_ones :: "nat \<Rightarrow> nat \<Rightarrow> npfloat ndarray" where
  "np_ones m n = \<lparr>ncols = n, rws = replicate m (replicate n (Fin 1))\<rparr>"

text \<open>\<open>np.insert(A, 0, v, axis = 0)\<close> and \<open>np.insert(A, 0, v, axis = 1)\<close>: a new array.\<close>

definition np_insert_row0 :: "'a \<Rightarrow> 'a ndarray \<Rightarrow> 'a ndarray" where
  "np_insert_row0 v A = \<lparr>ncols = ncols A, rws = replicate (ncols A) v # rws A\<rparr>"

definition np_insert_col0 :: "'a \<Rightarrow> 'a ndarray \<Rightarrow> 'a ndarray" where
  "np_insert_col0 v A = \<lparr>ncols = Suc (ncols A), rws = map ((#) v) (rws A)\<rparr>"

text \<open>\<open>A[:,1:]\<close>; slicing never raises.\<close>

definition drop_col0 :: "'a ndarray \<Rightarrow> 'a ndarray" where
  "drop_col0 A = \<lparr>ncols = ncols A - 1, rws = map tl (rws A)\<rparr>"

text \<open>\<open>A[:,0] = v\<close>; index 0 is out of bounds when the array has no column.\<close>

definition force_col0 :: "'a \<Rightarrow> 'a ndarray \<Rightarrow> 'a ndarray" where
  "force_col0 v A = \<lparr>ncols = ncols A, rws = map (\<lambda>r. v # tl r) (rws A)\<rparr>"

definition set_col0 :: "'a \<Rightarrow> 'a ndarray \<Rightarrow> error + 'a ndarray" where
  "set_col0 v A = (if ncols A = 0 then Inl IndexError else Inr (force_col0 v A))"

definition column :: "'a ndarray \<Rightarrow> nat \<Rightarrow> 'a list" where
  "column A j = map (\<lambda>r. r ! j) (rws A)"

definition np_T :: "'a ndarray \<Rightarrow> 'a ndarray" where
  "np_T A = \<lparr>ncols = nrows A, rws = map (column A) [0..<ncols A]\<rparr>"

text \<open>The inner product of \<open>np.dot\<close>; the empty sum is 0.0.\<close>

definition inner :: "npfloat list \<Rightarrow> npfloat list \<Rightarrow> npfloat" where
  "inner u v = foldl fadd (Fin 0) (map2 fmul u v)"

definition vec_mat :: "npfloat list \<Rightarrow> npfloat ndarray \<Rightarrow> npfloat list" where
  "vec_mat u B = map (\<lambda>j. inner u (column B j)) [0..<ncols B]"

definition mat_mul :: "npfloat ndarray \<Rightarrow> npfloat ndarray \<Rightarrow> npfloat ndarray" where
  "mat_mul A B = \<lparr>ncols = ncols B, rws = map (\<lambda>u. vec_mat u B) (rws A)\<rparr>"

text \<open>
  \<open>np.dot\<close> of two 2-D arrays, and of a 1-D with a 2-D array: a \<open>ValueError\<close>
  (shapes not aligned) unless the inner dimensions agree.
\<close>

definition np_dot :: "npfloat ndarray \<Rightarrow> npfloat ndarray \<Rightarrow> error + npfloat ndarray" where
  "np_dot A B = (if ncols A = nrows B then Inr (mat_mul A B) else Inl ValueError)"

definition np_dot1 :: "npfloat list \<Rightarrow> npfloat ndarray \<Rightarrow> error + npfloat list" where
  "np_dot1 u B = (if length u = nrows B then Inr (vec_mat u B) else Inl ValueError)"

text \<open>
  Cell-wise operations of two arrays. With equal shapes they work cell by cell;
  with unequal shapes the model raises the \<open>ValueError\<close> of a failed broadcast
  (broadcasting of a size-1 axis is not modelled: in an RBM whose weight array has
  the shape its constructor gives it, the shapes are always equal).
\<close>

definition zip_cells :: "('a \<Rightarrow> 'b \<Rightarrow> 'c) \<Rightarrow> 'a ndarray \<Rightarrow> 'b ndarray \<Rightarrow> 'c ndarray" where
  "zip_cells f A B = \<lparr>ncols = ncols A, rws = map2 (map2 f) (rws A) (rws B)\<rparr>"

definition cellwise :: "('a \<Rightarrow> 'b \<Rightarrow> 'c) \<Rightarrow> 'a ndarray \<Rightarrow> 'b ndarray \<Rightarrow> error + 'c ndarray" where
  "cellwise f A B =
     (if np_shape A = np_shape B then Inr (zip_cells f A B) else Inl ValueError)"

text \<open>\<open>probs > draws\<close>, as the float array it becomes in a product or a store.\<close>

definition sample :: "npfloat \<Rightarrow> real \<Rightarrow> npfloat" where
  "sample p u = of_flag (fgt p (Fin u))"

section \<open>The state outside the arrays\<close>

text \<open>
  The module-level generator \<open>np.random\<close> is a stream of draws of which \<open>rand\<close>
  consumes a prefix, row by row. What \<open>print\<close> writes when \<open>debug_print\<close> is set is
  kept as the pairs (epoch, error).
\<close>

record world =
  rng :: "nat \<Rightarrow> real"
  printed :: "(nat \<times> npfloat) list"

definition advance :: "nat \<Rightarrow> world \<Rightarrow> world" where
  "advance n w = w\<lparr>rng := (\<lambda>k. rng w (k + n))\<rparr>"

definition rand_list :: "nat \<Rightarrow> (nat \<Rightarrow> real) \<Rightarrow> real list" where
  "rand_list n g = map g [0..<n]"

definition rand_array :: "nat \<Rightarrow> nat \<Rightarrow> (nat \<Rightarrow> real) \<Rightarrow> real ndarray" where
  "rand_array m n g = \<lparr>ncols = n, rws = map (\<lambda>i. map (\<lambda>j. g (i * n + j)) [0..<n]) [0..<m]\<rparr>"

text \<open>\<open>np.random.rand(n)\<close> and \<open>np.random.rand(m, n)\<close>.\<close>

definition np_random_rand1 :: "nat \<Rightarrow> world \<Rightarrow> real list \<times> world" where
  "np_random_rand1 n w = (rand_list n (rng w), advance n w)"

definition np_random_rand :: "nat \<Rightarrow> nat \<Rightarrow> world \<Rightarrow> real ndarray \<times> world" where
  "np_random_rand m n w = (rand_array m n (rng w), advance (m * n) w)"

section \<open>The RBM class\<close>

text \<open>
  An object of the class: its attributes, with the weight array itself
  (\<open>rbm\<close>) or, where arrays are objects in a store, a reference to it
  (\<open>rbm_ref\<close>).
\<close>

record 'w rbm_of =
  num_hidden :: nat
  num_visible :: nat
  debug_print :: bool
  weights :: 'w

type_synonym rbm = "npfloat ndarray rbm_of"


text \<open>
  \<open>__init__\<close>. \<open>np.random.RandomState(seed)\<close> is numpy's Mersenne Twister; its
  stream of draws in [0, 1) is the parameter \<open>random_state\<close> (seed to stream), and
  \<open>uniform(low, high, size)\<close> fills the array row by row with
  \<open>low + (high - low) * draw\<close>. The counts are naturals: a negative count is outside
  the model. \<open>6. / (num_hidden + num_visible)\<close> divides a Python float by a Python
  int, which raises when the int is 0. The module-level generator is in the state
  and is not touched. The scalar arithmetic of the two bounds and the affine map of
  \<open>uniform\<close> are the exact reals here, not rounded.
\<close>

definition uniform :: "(nat \<Rightarrow> real) \<Rightarrow> real \<Rightarrow> real \<Rightarrow> nat \<Rightarrow> nat \<Rightarrow> npfloat ndarray" where
  "uniform np_rng low high m n =
     \<lparr>ncols = n,
      rws = map (\<lambda>i. map (\<lambda>j. Fin (low + (high - low) * np_rng (i * n + j))) [0..<n]) [0..<m]\<rparr>"

definition rbm_init ::
  "(nat \<Rightarrow> nat \<Rightarrow> real) \<Rightarrow> nat \<Rightarrow> nat \<Rightarrow> world \<Rightarrow> (error + rbm) \<times> world" where
  "rbm_init random_state nv nh w =
     (if nh + nv = 0 then (Inl ZeroDivisionError, w)
      else
        let np_rng = random_state 1234;
            ws = uniform np_rng
                   (- 0.1 * sqrt (6 / real (nh + nv)))
                   (0.1 * sqrt (6 / real (nh + nv))) nv nh;
            ws = np_insert_row0 (Fin 0) ws;
            ws = np_insert_col0 (Fin 0) ws
        in (Inr \<lparr>num_hidden = nh, num_visible = nv, debug_print = False, weights = ws\<rparr>, w))"

text \<open>
  A raise ends the call: \<open>or_raise r s k\<close> continues with the value of \<open>r\<close>, or
  returns the exception together with the state \<open>s\<close> reached when it was raised.
\<close>

definition or_raise :: "error + 'a \<Rightarrow> 's \<Rightarrow> ('a \<Rightarrow> (error + 'b) \<times> 's) \<Rightarrow> (error + 'b) \<times> 's" where
  "or_raise r s k = (case r of Inl e \<Rightarrow> (Inl e, s) | Inr x \<Rightarrow> k x)"

text \<open>\<open>A / num_examples\<close>, \<open>learning_rate * A\<close>, \<open>A ** 2\<close> and \<open>np.sum(A)\<close>.\<close>

definition div_count :: "npfloat ndarray \<Rightarrow> nat \<Rightarrow> npfloat ndarray" where
  "div_count A n = map_cells (\<lambda>x. fdiv x (Fin (real n))) A"

definition scale :: "real \<Rightarrow> npfloat ndarray \<Rightarrow> npfloat ndarray" where
  "scale c A = map_cells (fmul (Fin c)) A"

definition square :: "npfloat ndarray \<Rightarrow> npfloat ndarray" where
  "square A = map_cells (\<lambda>x. fmul x x) A"

definition np_sum :: "npfloat ndarray \<Rightarrow> npfloat" where
  "np_sum A = foldl fadd (Fin 0) (concat (rws A))"

text \<open>
  One pass of the body of the loop of \<open>train\<close>, on the data with its bias column.
  The state is the object and the world; \<open>self.weights += ...\<close> is the only store
  into the object.
\<close>

definition train_epoch ::
  "npfloat ndarray \<Rightarrow> nat \<Rightarrow> real \<Rightarrow> nat \<Rightarrow> rbm \<times> world \<Rightarrow> (error + unit) \<times> rbm \<times> world" where
  "train_epoch data num_examples learning_rate epoch sw =
     (let self = fst sw; w = snd sw in
      or_raise (np_dot data (weights self)) (self, w) (\<lambda>pos_hidden_activations.
      or_raise (set_col0 (Fin 1) (map_cells logistic pos_hidden_activations)) (self, w)
        (\<lambda>pos_hidden_probs.
      let draws = fst (np_random_rand num_examples (num_hidden self + 1) w);
          w = snd (np_random_rand num_examples (num_hidden self + 1) w) in
      or_raise (cellwise sample pos_hidden_probs draws) (self, w) (\<lambda>pos_hidden_states.
      or_raise (np_dot (np_T data) pos_hidden_probs) (self, w) (\<lambda>pos_associations.
      or_raise (np_dot pos_hidden_states (np_T (weights self))) (self, w)
        (\<lambda>neg_visible_activations.
      or_raise (set_col0 (Fin 1) (map_cells logistic neg_visible_activations)) (self, w)
        (\<lambda>neg_visible_probs.
      or_raise (np_dot neg_visible_probs (weights self)) (self, w) (\<lambda>neg_hidden_activations.
      let neg_hidden_probs = map_cells logistic neg_hidden_activations in
      or_raise (np_dot (np_T neg_visible_probs) neg_hidden_probs) (self, w)
        (\<lambda>neg_associations.
      or_raise (cellwise fsub pos_associations neg_associations) (self, w) (\<lambda>difference.
      or_raise (cellwise fadd (weights self)
                  (scale learning_rate (div_count difference num_examples))) (self, w)
        (\<lambda>updated.
      let self = self\<lparr>weights := updated\<rparr> in
      or_raise (cellwise fsub data neg_visible_probs) (self, w) (\<lambda>residual.
      let error = np_sum (square residual) in
      (Inr (),
       self,
       if debug_print self then w\<lparr>printed := printed w @ [(epoch, error)]\<rparr> else w)
      ))))))))))))"

fun train_loop ::
  "npfloat ndarray \<Rightarrow> nat \<Rightarrow> real \<Rightarrow> nat list \<Rightarrow> rbm \<times> world \<Rightarrow> (error + unit) \<times> rbm \<times> world" where
  "train_loop data num_examples learning_rate [] sw = (Inr (), sw)"
| "train_loop data num_examples learning_rate (epoch # epochs) sw =
     (case train_epoch data num_examples learning_rate epoch sw of
        (Inl e, sw') \<Rightarrow> (Inl e, sw')
      | (Inr _, sw') \<Rightarrow> train_loop data num_examples learning_rate epochs sw')"

text \<open>
  \<open>train(self, data, max_epochs, learning_rate)\<close>: \<open>range(max_epochs)\<close> is empty
  for a \<open>max_epochs\<close> below 1. The method has no \<open>return\<close>: its value is \<open>None\<close>.
\<close>

definition train ::
  "rbm \<Rightarrow> npfloat ndarray \<Rightarrow> int \<Rightarrow> real \<Rightarrow> world \<Rightarrow> (error + unit) \<times> rbm \<times> world" where
  "train self data max_epochs learning_rate w =
     (let num_examples = nrows data;
          data = np_insert_col0 (Fin 1) data
      in train_loop data num_examples learning_rate [0..<nat max_epochs] (self, w))"

text \<open>\<open>target[:,:] = source\<close>: the shapes must agree, the cells are those of the source.\<close>

definition store_all :: "'a ndarray \<Rightarrow> 'a ndarray \<Rightarrow> error + 'a ndarray" where
  "store_all target source =
     (if np_shape source = np_shape target then Inr source else Inl ValueError)"

definition run_visible ::
  "rbm \<Rightarrow> npfloat ndarray \<Rightarrow> world \<Rightarrow> (error + npfloat ndarray) \<times> world" where
  "run_visible self data w =
     (let num_examples = nrows data;
          hidden_states = np_ones num_examples (num_hidden self + 1);
          data = np_insert_col0 (Fin 1) data in
      or_raise (np_dot data (weights self)) w (\<lambda>hidden_activations.
      let hidden_probs = map_cells logistic hidden_activations;
          draws = fst (np_random_rand num_examples (num_hidden self + 1) w);
          w = snd (np_random_rand num_examples (num_hidden self + 1) w) in
      or_raise (cellwise sample hidden_probs draws) w (\<lambda>sampled.
      or_raise (store_all hidden_states sampled) w (\<lambda>hidden_states.
      (Inr (drop_col0 hidden_states), w)))))"

definition run_hidden ::
  "rbm \<Rightarrow> npfloat ndarray \<Rightarrow> world \<Rightarrow> (error + npfloat ndarray) \<times> world" where
  "run_hidden self data w =
     (let num_examples = nrows data;
          visible_states = np_ones num_examples (num_visible self + 1);
          data = np_insert_col0 (Fin 1) data in
      or_raise (np_dot data (np_T (weights self))) w (\<lambda>visible_activations.
      let visible_probs = map_cells logistic visible_activations;
          draws = fst (np_random_rand num_examples (num_visible self + 1) w);
          w = snd (np_random_rand num_examples (num_visible self + 1) w) in
      or_raise (cellwise sample visible_probs draws) w (\<lambda>sampled.
      or_raise (store_all visible_states sampled) w (\<lambda>visible_states.
      (Inr (drop_col0 visible_states), w)))))"

text \<open>
  \<open>daydream\<close>. One-dimensional arrays are lists. \<open>a > b\<close> of two 1-D arrays and
  \<open>samples[i,:] = a\<close> need equal lengths; \<open>a[0] = 1\<close> needs a cell 0.
\<close>

definition sample1 :: "npfloat list \<Rightarrow> real list \<Rightarrow> error + npfloat list" where
  "sample1 ps us = (if length ps = length us then Inr (map2 sample ps us) else Inl ValueError)"

definition set_item0 :: "'a \<Rightarrow> 'a list \<Rightarrow> error + 'a list" where
  "set_item0 v xs = (case xs of [] \<Rightarrow> Inl IndexError | _ # ys \<Rightarrow> Inr (v # ys))"

definition store_row :: "nat \<Rightarrow> 'a list \<Rightarrow> 'a ndarray \<Rightarrow> error + 'a ndarray" where
  "store_row i r A =
     (if nrows A \<le> i then Inl IndexError
      else if length r = ncols A then Inr (A\<lparr>rws := (rws A)[i := r]\<rparr>)
      else Inl ValueError)"

text \<open>The body of the loop of \<open>daydream\<close> up to the store: from \<open>visible\<close> to \<open>visible_states\<close>.\<close>

definition gibbs_step :: "rbm \<Rightarrow> npfloat list \<Rightarrow> world \<Rightarrow> (error + npfloat list) \<times> world" where
  "gibbs_step self visible w =
     or_raise (np_dot1 visible (weights self)) w (\<lambda>hidden_activations.
     let hidden_probs = map logistic hidden_activations;
         draws = fst (np_random_rand1 (num_hidden self + 1) w);
         w = snd (np_random_rand1 (num_hidden self + 1) w) in
     or_raise (sample1 hidden_probs draws) w (\<lambda>hidden_states.
     or_raise (set_item0 (Fin 1) hidden_states) w (\<lambda>hidden_states.
     or_raise (np_dot1 hidden_states (np_T (weights self))) w (\<lambda>visible_activations.
     let visible_probs = map logistic visible_activations;
         draws = fst (np_random_rand1 (num_visible self + 1) w);
         w = snd (np_random_rand1 (num_visible self + 1) w) in
     or_raise (sample1 visible_probs draws) w (\<lambda>visible_states.
     (Inr visible_states, w))))))"

fun daydream_loop ::
  "rbm \<Rightarrow> nat list \<Rightarrow> npfloat ndarray \<times> world \<Rightarrow> (error + npfloat ndarray) \<times> world" where
  "daydream_loop self [] sw = (Inr (fst sw), snd sw)"
| "daydream_loop self (i # is) sw =
     (let samples = fst sw; w = snd sw;
          visible = rws samples ! (i - 1) in
      or_raise (fst (gibbs_step self visible w)) (snd (gibbs_step self visible w))
        (\<lambda>visible_states.
      let w = snd (gibbs_step self visible w) in
      or_raise (store_row i visible_states samples) w (\<lambda>samples.
      daydream_loop self is (samples, w))))"

text \<open>
  The array \<open>samples\<close> when the loop of \<open>daydream\<close> ends, bias column included.
  \<open>samples[0,1:] = np.random.rand(...)\<close> draws first and then fails on an array
  without rows.
\<close>

definition daydream_samples :: "rbm \<Rightarrow> nat \<Rightarrow> world \<Rightarrow> (error + npfloat ndarray) \<times> world" where
  "daydream_samples self num_samples w =
     (let samples = np_ones num_samples (num_visible self + 1);
          draws = fst (np_random_rand1 (num_visible self) w);
          w = snd (np_random_rand1 (num_visible self) w) in
      if num_samples = 0 then (Inl IndexError, w)
      else
        let samples = samples\<lparr>rws := (rws samples)[0 := Fin 1 # map Fin draws]\<rparr>
        in daydream_loop self [1..<num_samples] (samples, w))"

definition daydream :: "rbm \<Rightarrow> nat \<Rightarrow> world \<Rightarrow> (error + npfloat ndarray) \<times> world" where
  "daydream self num_samples w =
     or_raise (fst (daydream_samples self num_samples w)) (snd (daydream_samples self num_samples w))
       (\<lambda>samples. (Inr (drop_col0 samples), snd (daydream_samples self num_samples w)))"

section \<open>Arrays as objects in a store\<close>

text \<open>
  For what \<open>train\<close> does to the arrays it is given, arrays are objects in a store
  and names hold references. A numpy function returns a new array (\<open>np.insert\<close>,
  \<open>np.dot\<close>, \<open>_logistic\<close>, the comparison, the arithmetic of two arrays), at the
  next free reference; \<open>A[:,0] = 1\<close> and \<open>self.weights += ...\<close> store into an
  existing array; \<open>A.T\<close> is read through. \<open>train_epoch_in_store\<close> and
  \<open>train_in_store\<close> are the body of the loop and the method of \<open>train\<close> again,
  statement by statement, on references; \<open>data\<close> is rebound to the copy with the
  bias column, and \<open>deref\<close> reads the object with its weight array.
\<close>

record heap =
  arrays :: "nat \<Rightarrow> npfloat ndarray"
  next_ref :: nat

definition new_array :: "npfloat ndarray \<Rightarrow> heap \<Rightarrow> heap" where
  "new_array A h = \<lparr>arrays = (arrays h)(next_ref h := A), next_ref = Suc (next_ref h)\<rparr>"

definition put_array :: "nat \<Rightarrow> npfloat ndarray \<Rightarrow> heap \<Rightarrow> heap" where
  "put_array r A h = h\<lparr>arrays := (arrays h)(r := A)\<rparr>"





section \<open>The contrastive-divergence update as the specification words it\<close>

text \<open>
  The update of one epoch written from the specification's sentences, on arrays
  whose shapes fit: \<open>D\<close> is the data with its bias column, \<open>W\<close> the weights,
  \<open>U\<close> the uniform draws of the epoch.
\<close>

definition spec_pos_hidden_probs :: "npfloat ndarray \<Rightarrow> npfloat ndarray \<Rightarrow> npfloat ndarray" where
  "spec_pos_hidden_probs W D = force_col0 (Fin 1) (map_cells logistic (mat_mul D W))"

definition spec_hidden_states ::
  "npfloat ndarray \<Rightarrow> npfloat ndarray \<Rightarrow> real ndarray \<Rightarrow> npfloat ndarray" where
  "spec_hidden_states W D U = zip_cells sample (spec_pos_hidden_probs W D) U"

definition spec_pos_associations :: "npfloat ndarray \<Rightarrow> npfloat ndarray \<Rightarrow> npfloat ndarray" where
  "spec_pos_associations W D = mat_mul (np_T D) (spec_pos_hidden_probs W D)"

definition spec_neg_visible_probs :: "npfloat ndarray \<Rightarrow> npfloat ndarray \<Rightarrow> npfloat ndarray" where
  "spec_neg_visible_probs W H = force_col0 (Fin 1) (map_cells logistic (mat_mul H (np_T W)))"

definition spec_neg_hidden_probs :: "npfloat ndarray \<Rightarrow> npfloat ndarray \<Rightarrow> npfloat ndarray" where
  "spec_neg_hidden_probs W H = map_cells logistic (mat_mul (spec_neg_visible_probs W H) W)"

definition spec_neg_associations :: "npfloat ndarray \<Rightarrow> npfloat ndarray \<Rightarrow> npfloat ndarray" where
  "spec_neg_associations W H =
     mat_mul (np_T (spec_neg_visible_probs W H)) (spec_neg_hidden_probs W H)"

definition spec_update ::
  "real \<Rightarrow> npfloat ndarray \<Rightarrow> real ndarray \<Rightarrow> npfloat ndarray \<Rightarrow> npfloat ndarray" where
  "spec_update learning_rate D U W =
     zip_cells fadd W
       (scale learning_rate
          (div_count
             (zip_cells fsub (spec_pos_associations W D)
                (spec_neg_associations W (spec_hidden_states W D U)))
             (nrows D)))"

text \<open>
  \<open>max_epochs\<close> updates in a row; the epoch's draws are the next
  \<open>num_examples * (num_hidden + 1)\<close> values of the generator.
\<close>

fun spec_train ::
  "real \<Rightarrow> npfloat ndarray \<Rightarrow> nat \<Rightarrow> npfloat ndarray \<times> (nat \<Rightarrow> real)
     \<Rightarrow> npfloat ndarray \<times> (nat \<Rightarrow> real)" where
  "spec_train learning_rate D 0 Wg = Wg"
| "spec_train learning_rate D (Suc k) Wg =
     spec_train learning_rate D k
       (spec_update learning_rate D (rand_array (nrows D) (ncols (fst Wg)) (snd Wg)) (fst Wg),
        (\<lambda>i. snd Wg (i + nrows D * ncols (fst Wg))))"

section \<open>Invariants\<close>

text \<open>The weight array of an object has the shape the constructor gave it.\<close>

definition rbm_inv :: "rbm \<Rightarrow> bool" where
  "rbm_inv self = (np_shape (weights self) = (num_visible self + 1, num_hidden self + 1))"

definition is_fin :: "npfloat \<Rightarrow> bool" where
  "is_fin x = (case x of Fin _ \<Rightarrow> True | _ \<Rightarrow> False)"

definition is_double :: "npfloat \<Rightarrow> bool" where
  "is_double x = (case x of Fin r \<Rightarrow> round64 r = Fin r | _ \<Rightarrow> False)"

definition is_prob :: "npfloat \<Rightarrow> bool" where
  "is_prob x = (case x of Fin p \<Rightarrow> 0 \<le> p \<and> p \<le> 1 | _ \<Rightarrow> False)"

definition is_count :: "npfloat \<Rightarrow> bool" where
  "is_count x = (case x of Fin r \<Rightarrow> 0 \<le> r \<and> r \<le> 2 ^ 53 | _ \<Rightarrow> False)"

definition is_small :: "npfloat \<Rightarrow> bool" where
  "is_small x = (case x of Fin r \<Rightarrow> \<bar>r\<bar> \<le> 2 ^ 53 | _ \<Rightarrow> False)"

definition is_bit :: "npfloat \<Rightarrow> bool" where
  "is_bit x = (x = Fin 0 \<or> x = Fin 1)"

definition is_unit_draw :: "npfloat \<Rightarrow> bool" where
  "is_unit_draw x = (case x of Fin u \<Rightarrow> 0 \<le> u \<and> u < 1 | _ \<Rightarrow> False)"

section \<open>Concrete inputs\<close>

text \<open>
  A machine of one visible and one hidden unit with all weights 0, a data set of the
  single example \<open>[1]\<close>, and a generator whose every draw is 0.75.
\<close>

definition zeros22 :: "npfloat ndarray" where
  "zeros22 = \<lparr>ncols = 2, rws = [[Fin 0, Fin 0], [Fin 0, Fin 0]]\<rparr>"

definition rbm11 :: rbm where
  "rbm11 = \<lparr>num_hidden = 1, num_visible = 1, debug_print = False, weights = zeros22\<rparr>"

definition one_example :: "npfloat ndarray" where
  "one_example = \<lparr>ncols = 1, rws = [[Fin 1]]\<rparr>"

definition no_examples :: "npfloat ndarray" where
  "no_examples = \<lparr>ncols = 1, rws = []\<rparr>"

definition two_columns :: "npfloat ndarray" where
  "two_columns = \<lparr>ncols = 2, rws = [[Fin 1, Fin 0]]\<rparr>"

definition hidden_input :: "npfloat ndarray" where
  "hidden_input = \<lparr>ncols = 1, rws = [[Fin 1], [Fin 0]]\<rparr>"







definition draws34 :: world where
  "draws34 = \<lparr>rng = (\<lambda>k. 3 / 4), printed = []\<rparr>"

section \<open>Unfolding for evaluation\<close>

lemmas example_defs = rbm11_def zeros22_def one_example_def draws34_def

lemmas array_defs = np_insert_col0_def np_insert_row0_def map_cells_def force_col0_def
  np_T_def column_def mat_mul_def vec_mat_def inner_def zip_cells_def drop_col0_def
  np_ones_def rand_array_def rand_list_def div_count_def scale_def square_def nrows_def
  np_shape_def

lemmas float_defs = logistic_def sample_def of_flag_def fsub_def inf_of_sign_def

section \<open>Rounding to the nearest double\<close>

lemma rne_cases: "rne q = \<lfloor>q\<rfloor> \<or> rne q = \<lfloor>q\<rfloor> + 1 \<and> 1 / 2 \<le> q - of_int \<lfloor>q\<rfloor>"
  by (auto simp add: rne_def Let_def)

lemma rne_lower:
  assumes "of_int n \<le> q"
  shows "n \<le> rne q"
proof -
  have "n \<le> \<lfloor>q\<rfloor>"
    using assms by (simp add: le_floor_iff)
  with rne_cases [of q] show ?thesis by auto
qed

lemma rne_upper:
  assumes "q \<le> of_int n"
  shows "rne q \<le> n"
proof -
  have f: "\<lfloor>q\<rfloor> \<le> n"
    using assms by (simp add: floor_le_iff)
  show ?thesis
  proof (cases "rne q = \<lfloor>q\<rfloor>")
    case True
    with f show ?thesis by simp
  next
    case False
    with rne_cases [of q] have r: "rne q = \<lfloor>q\<rfloor> + 1" and h: "1 / 2 \<le> q - of_int \<lfloor>q\<rfloor>"
      by auto
    from h assms have "of_int \<lfloor>q\<rfloor> < (of_int n :: real)" by linarith
    then have "\<lfloor>q\<rfloor> < n" by simp
    with r show ?thesis by simp
  qed
qed

lemma rne_of_int [simp]: "rne (of_int n) = n"
  by (simp add: rne_def)

lemma rne_zero [simp]: "rne 0 = 0"
  using rne_of_int [of 0] by simp

lemma rne_minus: "rne (- q) = - rne q"
proof (cases "q = of_int \<lfloor>q\<rfloor>")
  case True
  then obtain n :: int where "q = of_int n" by blast
  then have "- q = of_int (- n)" by simp
  then show ?thesis unfolding \<open>q = of_int n\<close> by (simp only: rne_of_int)
next
  case False
  have "\<lceil>q\<rceil> = \<lfloor>q\<rfloor> + 1"
    by (subst ceiling_altdef) (simp only: False if_False)
  then have fl: "\<lfloor>- q\<rfloor> = - \<lfloor>q\<rfloor> - 1"
    by (simp add: floor_minus)
  have par: "even (- \<lfloor>q\<rfloor> - 1) \<longleftrightarrow> odd \<lfloor>q\<rfloor>"
    by simp
  show ?thesis
    unfolding rne_def Let_def fl par
    by (auto simp add: algebra_simps)
qed

lemma rne_mono:
  assumes "p \<le> q"
  shows "rne p \<le> rne q"
proof (cases "\<lfloor>p\<rfloor> = \<lfloor>q\<rfloor>")
  case True
  then show ?thesis
    using assms unfolding rne_def Let_def by auto
next
  case False
  then have "\<lfloor>p\<rfloor> + 1 \<le> \<lfloor>q\<rfloor>"
    using floor_mono [OF assms] by linarith
  moreover have "rne p \<le> \<lfloor>p\<rfloor> + 1"
    using rne_cases [of p] by auto
  moreover have "\<lfloor>q\<rfloor> \<le> rne q"
    using rne_cases [of q] by auto
  ultimately show ?thesis by linarith
qed

lemma rne_half_even: "rne (2 ^ 52 + 1 / 2) = 2 ^ 52"
proof -
  have "\<lfloor>2 ^ 52 + 1 / 2 :: real\<rfloor> = 2 ^ 52"
    by (simp add: floor_eq_iff)
  then show ?thesis
    by (simp add: rne_def)
qed

lemma ulp_bexp: "ulp x = 2 powr of_int (bexp x - 52)"
  by (simp add: ulp_def)

lemma ulp_pos [simp]: "0 < ulp x"
  by (simp add: ulp_def)

lemma ulp_nonneg [simp]: "0 \<le> ulp x"
  by (simp add: ulp_def)

lemma ulp_minus [simp]: "ulp (- x) = ulp x"
  by (simp add: ulp_def bexp_def)

lemma below_next_binade:
  assumes "x \<noteq> 0"
  shows "\<bar>x\<bar> < 2 powr of_int (bexp x + 1)"
proof -
  have "\<bar>x\<bar> < 2 powr (of_int \<lfloor>log 2 \<bar>x\<bar>\<rfloor> + 1)"
    using assms floor_log_eq_powr_iff [of "\<bar>x\<bar>" 2 "\<lfloor>log 2 \<bar>x\<bar>\<rfloor>"] by simp
  also have "\<dots> \<le> 2 powr of_int (bexp x + 1)"
    by (simp add: bexp_def)
  finally show ?thesis .
qed

lemma above_binade:
  assumes "x \<noteq> 0" and "- 1022 \<le> \<lfloor>log 2 \<bar>x\<bar>\<rfloor>"
  shows "2 powr of_int (bexp x) \<le> \<bar>x\<bar>"
proof -
  have "2 powr of_int \<lfloor>log 2 \<bar>x\<bar>\<rfloor> \<le> \<bar>x\<bar>"
    using assms(1) floor_log_eq_powr_iff [of "\<bar>x\<bar>" 2 "\<lfloor>log 2 \<bar>x\<bar>\<rfloor>"] by simp
  then show ?thesis
    by (simp only: bexp_def max_absorb1 [OF assms(2)])
qed

lemma pow2_shift: "2 powr (of_int k + real n) = 2 ^ n * 2 powr of_int k"
  by (simp add: powr_add powr_realpow)

lemma binade_as_ulp:
  "2 powr of_int (bexp x + 1) = 2 ^ 53 * ulp x"
  "2 powr of_int (bexp x) = 2 ^ 52 * ulp x"
proof -
  have "real_of_int (bexp x + 1) = of_int (bexp x - 52) + real 53"
    "real_of_int (bexp x) = of_int (bexp x - 52) + real 52"
    by simp_all
  then show "2 powr of_int (bexp x + 1) = 2 ^ 53 * ulp x"
    "2 powr of_int (bexp x) = 2 ^ 52 * ulp x"
    unfolding ulp_bexp by (simp_all only: pow2_shift)
qed

lemma bexp_mono:
  assumes "0 < x" and "x \<le> y"
  shows "bexp x \<le> bexp y"
proof -
  have "log 2 x \<le> log 2 y"
    using assms by simp
  then have "\<lfloor>log 2 x\<rfloor> \<le> \<lfloor>log 2 y\<rfloor>"
    by (rule floor_mono)
  then show ?thesis
    using assms by (simp add: bexp_def)
qed

lemma scaled_below:
  assumes "x \<noteq> 0"
  shows "\<bar>x\<bar> / ulp x < 2 ^ 53"
proof -
  have "\<bar>x\<bar> < 2 powr of_int (bexp x + 1)"
    using assms by (rule below_next_binade)
  also have "\<dots> = 2 ^ 53 * ulp x"
    by (rule binade_as_ulp)
  finally show ?thesis
    by (simp add: pos_divide_less_eq)
qed

lemma scaled_above:
  assumes "x \<noteq> 0" and "- 1022 \<le> \<lfloor>log 2 \<bar>x\<bar>\<rfloor>"
  shows "2 ^ 52 \<le> \<bar>x\<bar> / ulp x"
proof -
  have "2 ^ 52 * ulp x = 2 powr of_int (bexp x)"
    by (rule binade_as_ulp [symmetric])
  also have "\<dots> \<le> \<bar>x\<bar>"
    using assms by (rule above_binade)
  finally show ?thesis
    by (simp add: pos_le_divide_eq)
qed

lemma rval_minus: "rval (- x) = - rval x"
  by (simp add: rval_def rne_minus)

lemma rval_nonneg:
  assumes "0 \<le> x"
  shows "0 \<le> rval x"
proof -
  have "of_int 0 \<le> x / ulp x"
    using assms by (simp add: zero_le_divide_iff)
  then have "0 \<le> rne (x / ulp x)"
    by (rule rne_lower)
  then show ?thesis
    by (simp add: rval_def)
qed

lemma rval_zero [simp]: "rval 0 = 0"
  by (simp add: rval_def)

lemma rval_mono_pos:
  assumes "0 < x" and "x \<le> y"
  shows "rval x \<le> rval y"
proof (cases "bexp x = bexp y")
  case True
  then have u: "ulp x = ulp y"
    by (simp add: ulp_bexp)
  have "x / ulp y \<le> y / ulp y"
    using assms(2) by (intro divide_right_mono) simp_all
  then have "rne (x / ulp y) \<le> rne (y / ulp y)"
    by (rule rne_mono)
  then show ?thesis
    by (simp add: rval_def u)
next
  case False
  with bexp_mono [OF assms] have lt: "bexp x + 1 \<le> bexp y"
    by simp
  have y: "0 < y" "y \<noteq> 0"
    using assms by simp_all
  have "- 1022 \<le> bexp x"
    by (simp add: bexp_def)
  with lt have "- 1022 < bexp y" by simp
  then have normal: "- 1022 \<le> \<lfloor>log 2 \<bar>y\<bar>\<rfloor>"
    by (simp add: bexp_def max_def split: if_splits)
  have "x / ulp x < 2 ^ 53"
    using scaled_below [of x] assms(1) by simp
  then have "x / ulp x \<le> of_int (2 ^ 53)"
    by simp
  then have "rne (x / ulp x) \<le> 2 ^ 53"
    by (rule rne_upper)
  then have "of_int (rne (x / ulp x)) \<le> (2 ^ 53 :: real)"
    by (metis of_int_le_iff of_int_numeral of_int_power)
  then have "rval x \<le> 2 ^ 53 * ulp x"
    by (simp add: rval_def)
  also have "\<dots> = 2 powr of_int (bexp x + 1)"
    by (rule binade_as_ulp [symmetric])
  also have "\<dots> \<le> 2 powr of_int (bexp y)"
    using lt by simp
  also have "\<dots> = 2 ^ 52 * ulp y"
    by (rule binade_as_ulp)
  also have "\<dots> \<le> rval y"
  proof -
    have "of_int (2 ^ 52) \<le> y / ulp y"
      using scaled_above [OF y(2) normal] y(1) by simp
    then have "2 ^ 52 \<le> rne (y / ulp y)"
      by (rule rne_lower)
    then have "(2 ^ 52 :: real) \<le> of_int (rne (y / ulp y))"
      by (metis of_int_le_iff of_int_numeral of_int_power)
    then show ?thesis
      by (simp add: rval_def)
  qed
  finally show ?thesis .
qed

lemma rval_mono:
  assumes "x \<le> y"
  shows "rval x \<le> rval y"
proof -
  consider "0 < x" | "x \<le> 0" "0 \<le> y" | "y < 0"
    by linarith
  then show ?thesis
  proof cases
    case 1
    then show ?thesis using assms by (rule rval_mono_pos)
  next
    case 2
    have "rval x \<le> 0"
      using rval_nonneg [of "- x"] 2(1) by (simp add: rval_minus)
    also have "0 \<le> rval y"
      using 2(2) by (rule rval_nonneg)
    finally show ?thesis .
  next
    case 3
    have "rval (- y) \<le> rval (- x)"
      using 3 assms by (intro rval_mono_pos) simp_all
    then show ?thesis
      by (simp add: rval_minus)
  qed
qed

lemma rval_exact:
  assumes "\<bar>m\<bar> < 2 ^ 53" and "- 1074 \<le> e"
  shows "rval (of_int m * 2 powr of_int e) = of_int m * 2 powr of_int e"
proof (cases "m = 0")
  case True
  then show ?thesis by (simp add: rval_def)
next
  case False
  let ?x = "of_int m * 2 powr of_int e :: real"
  have x: "?x \<noteq> 0" "0 < \<bar>?x\<bar>"
    using False by simp_all
  have "\<bar>real_of_int m\<bar> < 2 ^ 53"
    using assms(1) by (metis of_int_abs of_int_less_iff of_int_numeral of_int_power)
  then have "\<bar>?x\<bar> < 2 ^ 53 * 2 powr of_int e"
    by (simp add: abs_mult)
  also have "\<dots> = 2 powr of_int (e + 53)"
    using pow2_shift [of e 53] by simp
  finally have "log 2 \<bar>?x\<bar> < of_int (e + 53)"
    using x(2) by (simp add: log_less_iff)
  then have "\<lfloor>log 2 \<bar>?x\<bar>\<rfloor> < e + 53"
    by (simp add: floor_less_iff)
  then have k: "bexp ?x - 52 \<le> e"
    using assms(2) by (simp add: bexp_def)
  define d where "d = nat (e - (bexp ?x - 52))"
  have e: "real_of_int e = of_int (bexp ?x - 52) + real d"
    using k by (simp add: d_def)
  have "2 powr real_of_int e = 2 powr (of_int (bexp ?x - 52) + real d)"
    by (rule arg_cong [OF e])
  also have "\<dots> = 2 ^ d * 2 powr of_int (bexp ?x - 52)"
    by (rule pow2_shift)
  finally have pow: "2 powr of_int e = 2 ^ d * ulp ?x"
    by (simp only: ulp_bexp)
  define u where "u = ulp ?x"
  define p where "p = 2 powr real_of_int e"
  have u: "0 < u" and p: "p = 2 ^ d * u"
    using pow by (simp_all add: u_def p_def)
  have q: "of_int m * p / u = of_int (m * 2 ^ d)"
    using u by (simp add: p)
  have "rne (of_int m * p / u) = m * 2 ^ d"
    by (simp only: q rne_of_int)
  then have "of_int (rne (of_int m * p / u)) * u = of_int (m * 2 ^ d) * u"
    by simp
  also have "\<dots> = of_int m * p"
    by (simp add: p)
  finally show ?thesis
    by (simp add: rval_def u_def p_def)
qed

lemma rval_pow2: "- 1074 \<le> e \<Longrightarrow> rval (2 powr of_int e) = 2 powr of_int e"
  using rval_exact [of 1 e] by simp

lemma rval_above_one: "rval (1 + 1 / 2 ^ 53) = 1"
proof -
  let ?x = "1 + 1 / 2 ^ 53 :: real"
  have "\<lfloor>log 2 \<bar>?x\<bar>\<rfloor> = 0"
    by (subst floor_log_eq_powr_iff) simp_all
  then have u: "ulp ?x = 1 / 2 ^ 52"
    by (simp add: ulp_def bexp_def powr_minus_divide)
  have q: "?x / ulp ?x = 2 ^ 52 + 1 / 2"
    unfolding u by simp
  have "rval ?x = of_int (rne (?x / ulp ?x)) * ulp ?x"
    by (simp only: rval_def)
  also have "\<dots> = of_int (rne (2 ^ 52 + 1 / 2)) * ulp ?x"
    by (simp only: q)
  also have "\<dots> = 2 ^ 52 * ulp ?x"
    by (simp only: rne_half_even of_int_power of_int_numeral)
  also have "\<dots> = 1"
    unfolding u by simp
  finally show ?thesis .
qed

lemma rval_above_2_53: "rval (2 ^ 53 + 1) = 2 ^ 53"
proof -
  let ?x = "2 ^ 53 + 1 :: real"
  have "\<lfloor>log 2 \<bar>?x\<bar>\<rfloor> = 53"
    by (subst floor_log_eq_powr_iff) simp_all
  then have u: "ulp ?x = 2"
    by (simp add: ulp_def bexp_def)
  have q: "?x / ulp ?x = 2 ^ 52 + 1 / 2"
    unfolding u by simp
  have "rval ?x = of_int (rne (?x / ulp ?x)) * ulp ?x"
    by (simp only: rval_def)
  also have "\<dots> = of_int (rne (2 ^ 52 + 1 / 2)) * ulp ?x"
    by (simp only: q)
  also have "\<dots> = 2 ^ 52 * ulp ?x"
    by (simp only: rne_half_even of_int_power of_int_numeral)
  also have "\<dots> = 2 ^ 53"
    unfolding u by simp
  finally show ?thesis .
qed

lemma round64_rval:
  "round64 x = (if x = 0 then Fin 0
                else if 2 ^ 1024 \<le> \<bar>rval x\<bar> then (if 0 < x then PInf else NInf)
                else Fin (rval x))"
  by (simp add: round64_def)

lemma round64_zero [simp]: "round64 0 = Fin 0"
  by (simp add: round64_def)

lemma round64_minus: "round64 (- x) = fneg (round64 x)"
  by (simp add: round64_def rval_minus)

lemma round64_cases:
  "round64 x = (if 2 ^ 1024 \<le> rval x then PInf
                else if rval x \<le> - (2 ^ 1024) then NInf
                else Fin (rval x))"
proof -
  consider "x = 0" | "0 < x" | "x < 0" by linarith
  then show ?thesis
  proof cases
    case 1
    then show ?thesis by simp
  next
    case 2
    then have "0 \<le> rval x" by (simp add: rval_nonneg)
    with 2 show ?thesis by (simp add: round64_rval)
  next
    case 3
    then have "rval x \<le> 0"
      using rval_nonneg [of "- x"] by (simp add: rval_minus)
    with 3 show ?thesis by (auto simp add: round64_rval)
  qed
qed

lemma round64_not_nan [simp]: "round64 x \<noteq> NaN"
  by (simp add: round64_cases)

lemma fle_round64_PInf [simp]: "fle (round64 x) PInf"
  by (cases "round64 x") simp_all

lemma round64_mono: "x \<le> y \<Longrightarrow> fle (round64 x) (round64 y)"
  using rval_mono [of x y] by (auto simp add: round64_cases)

lemma round64_exact:
  assumes "\<bar>m\<bar> < 2 ^ 53" and "- 1074 \<le> e"
    and "\<bar>of_int m * 2 powr of_int e\<bar> < (2 ^ 1024 :: real)"
  shows "round64 (of_int m * 2 powr of_int e) = Fin (of_int m * 2 powr of_int e)"
  using assms(3) by (simp add: round64_rval rval_exact [OF assms(1,2)] del: abs_mult)

lemma round64_values [simp]:
  "round64 1 = Fin 1" "round64 2 = Fin 2" "round64 3 = Fin 3"
  "round64 (1 / 2) = Fin (1 / 2)" "round64 (3 / 2) = Fin (3 / 2)"
  "round64 (1 / 4) = Fin (1 / 4)" "round64 (3 / 4) = Fin (3 / 4)"
  using round64_exact [of 1 0] round64_exact [of 2 0] round64_exact [of 3 0]
    round64_exact [of 1 "- 1"] round64_exact [of 3 "- 1"]
    round64_exact [of 1 "- 2"] round64_exact [of 3 "- 2"]
  by (simp_all add: powr_minus_divide)

lemma round64_overflow:
  assumes "2 ^ 1024 \<le> x"
  shows "round64 x = PInf"
proof -
  have "rval (2 ^ 1024) = (2 ^ 1024 :: real)"
    using rval_pow2 [of 1024] by (simp add: powr_numeral del: power_numeral)
  then have "2 ^ 1024 \<le> rval x"
    using rval_mono [OF assms] by simp
  then show ?thesis
    by (simp add: round64_cases)
qed

lemma round64_bounded:
  assumes "round64 b = Fin b" and "\<bar>x\<bar> \<le> b"
  shows "\<exists>r. round64 x = Fin r \<and> \<bar>r\<bar> \<le> b"
proof -
  have b: "rval b = b" "b < 2 ^ 1024"
    using assms(1) by (auto simp add: round64_cases split: if_splits)
  have "rval x \<le> rval b"
    using assms(2) by (intro rval_mono) simp
  moreover have "rval (- b) \<le> rval x"
    using assms(2) by (intro rval_mono) simp
  ultimately have "\<bar>rval x\<bar> \<le> b"
    using b(1) by (simp add: rval_minus abs_le_iff)
  then show ?thesis
    using b(2) by (auto simp add: round64_cases)
qed

lemma round64_between:
  assumes "round64 a = Fin a" and "round64 b = Fin b" and "a \<le> x" and "x \<le> b"
  shows "\<exists>r. round64 x = Fin r \<and> a \<le> r \<and> r \<le> b"
proof -
  have "fle (round64 a) (round64 x)" "fle (round64 x) (round64 b)"
    using assms(3,4) by (simp_all add: round64_mono)
  then show ?thesis
    unfolding assms(1,2) by (cases "round64 x") simp_all
qed

lemma round64_to_one:
  assumes "1 \<le> x" and "x \<le> 1 + 1 / 2 ^ 53"
  shows "round64 x = Fin 1"
proof -
  have "rval 1 \<le> rval x"
    using assms(1) by (rule rval_mono)
  moreover have "rval x \<le> 1"
    using rval_mono [OF assms(2)] by (simp only: rval_above_one)
  moreover have "rval 1 = 1"
    using rval_exact [of 1 0] by simp
  ultimately have "rval x = 1"
    by simp
  then show ?thesis
    by (simp add: round64_cases)
qed

lemma fle_not_fgt: "fle a b \<Longrightarrow> \<not> fgt a b"
  by (cases a; cases b) simp_all

text \<open>
  The model sees the overflow of a sum of two doubles, and what a product with 0
  makes of it.
\<close>

lemma finite_sum_overflows:
  "inner [Fin (2 ^ 1023), Fin (2 ^ 1023)] [Fin 1, Fin 1] = PInf"
  "fmul (Fin 0) PInf = NaN"
proof -
  have "round64 (2 ^ 1023) = Fin (2 ^ 1023)"
    using round64_exact [of 1 1023] by (simp add: powr_numeral del: power_numeral)
  moreover have "(2 ^ 1023 + 2 ^ 1023 :: real) = 2 ^ 1024"
    by simp
  ultimately show "inner [Fin (2 ^ 1023), Fin (2 ^ 1023)] [Fin 1, Fin 1] = PInf"
    by (simp add: inner_def round64_overflow del: power_numeral)
  show "fmul (Fin 0) PInf = NaN"
    by (simp add: inf_of_sign_def)
qed

section \<open>The logistic function\<close>

lemma exp_ge_pow2: "2 ^ n \<le> exp (real n)"
proof -
  have "(2::real) \<le> exp 1"
    using exp_ge_add_one_self [of 1] by simp
  then have "(2::real) ^ n \<le> exp 1 ^ n"
    by (intro power_mono) simp_all
  also have "\<dots> = exp (real n)"
    using exp_of_nat_mult [of n "1::real"] by simp
  finally show ?thesis .
qed

lemma logistic_saturates_high:
  assumes "64 \<le> x"
  shows "logistic (Fin x) = Fin 1"
proof -
  have "exp (- x) \<le> exp (- 64)"
    using assms by simp
  also have "\<dots> = 1 / exp (real 64)"
    by (simp add: exp_minus inverse_eq_divide)
  also have "\<dots> \<le> 1 / 2 ^ 64"
    using exp_ge_pow2 [of 64] by (intro divide_left_mono) simp_all
  finally have small: "exp (- x) \<le> 1 / 2 ^ 64" .
  have "round64 (1 / 2 ^ 64) = Fin (1 / 2 ^ 64)"
    using round64_exact [of 1 "- 64"] by (simp add: powr_minus_divide)
  from round64_between [OF round64_zero this, of "exp (- x)"] small
  obtain e where e: "round64 (exp (- x)) = Fin e" "0 \<le> e" "e \<le> 1 / 2 ^ 64"
    by auto
  have "e \<le> 1 / 2 ^ 53"
    using e(3) by simp
  then have "round64 (1 + e) = Fin 1"
    using e(2) by (intro round64_to_one) simp_all
  then show ?thesis
    by (simp add: logistic_def e(1))
qed

lemma logistic_saturates_low:
  assumes "x \<le> - 1024"
  shows "logistic (Fin x) = Fin 0"
proof -
  have "(2::real) ^ 1024 \<le> exp (real 1024)"
    by (rule exp_ge_pow2)
  also have "\<dots> \<le> exp (- x)"
    using assms by simp
  finally have "round64 (exp (- x)) = PInf"
    by (rule round64_overflow)
  then show ?thesis
    by (simp add: logistic_def)
qed

lemma fexp_range: "fexp (Fin x) = PInf \<or> (\<exists>e. fexp (Fin x) = Fin e \<and> 0 \<le> e)"
proof -
  have "0 \<le> rval (exp x)"
    by (simp add: rval_nonneg)
  then show ?thesis
    by (auto simp add: round64_cases)
qed

lemma one_plus_range:
  assumes "0 \<le> e"
  shows "round64 (1 + e) = PInf \<or> (\<exists>z. round64 (1 + e) = Fin z \<and> 1 \<le> z)"
proof -
  have "fle (round64 1) (round64 (1 + e))"
    using assms by (intro round64_mono) simp
  then show ?thesis
    by (cases "round64 (1 + e)") simp_all
qed

lemma reciprocal_range:
  assumes "1 \<le> z"
  shows "\<exists>r. round64 (1 / z) = Fin r \<and> 0 \<le> r \<and> r \<le> 1"
  using assms by (intro round64_between) simp_all

lemma logistic_range: "\<exists>y. logistic (Fin x) = Fin y \<and> 0 \<le> y \<and> y \<le> 1"
proof -
  consider "fexp (Fin (- x)) = PInf" | e where "fexp (Fin (- x)) = Fin e" "0 \<le> e"
    using fexp_range [of "- x"] by blast
  then show ?thesis
  proof cases
    case 1
    then show ?thesis by (simp add: logistic_def)
  next
    case 2
    consider "round64 (1 + e) = PInf" | z where "round64 (1 + e) = Fin z" "1 \<le> z"
      using one_plus_range [OF 2(2)] by blast
    then show ?thesis
    proof cases
      case 1
      with 2 show ?thesis by (simp add: logistic_def)
    next
      case 2
      note z = this
      from reciprocal_range [OF z(2)] obtain r
        where "round64 (1 / z) = Fin r" "0 \<le> r" "r \<le> 1" by blast
      with \<open>fexp (Fin (- x)) = Fin e\<close> z show ?thesis
        by (simp add: logistic_def)
    qed
  qed
qed

lemma logistic_mono:
  assumes "x \<le> y"
  shows "fle (logistic (Fin x)) (logistic (Fin y))"
proof -
  define a where "a = fexp (Fin (- y))"
  define b where "b = fexp (Fin (- x))"
  have ab: "fle a b"
    using assms by (simp add: a_def b_def round64_mono)
  have a: "a = PInf \<or> (\<exists>e. a = Fin e \<and> 0 \<le> e)"
    and b: "b = PInf \<or> (\<exists>e. b = Fin e \<and> 0 \<le> e)"
    unfolding a_def b_def by (rule fexp_range)+
  define za where "za = fadd (Fin 1) a"
  define zb where "zb = fadd (Fin 1) b"
  have zab: "fle za zb"
    using a b ab by (auto simp add: za_def zb_def round64_mono)
  have plus: "fadd (Fin 1) c = PInf \<or> (\<exists>z. fadd (Fin 1) c = Fin z \<and> 1 \<le> z)"
    if c: "c = PInf \<or> (\<exists>e. c = Fin e \<and> 0 \<le> e)" for c
  proof -
    consider "c = PInf" | e where "c = Fin e" "0 \<le> e"
      using c by blast
    then show ?thesis
    proof cases
      case 1
      then show ?thesis by simp
    next
      case 2
      with one_plus_range [OF 2(2)] show ?thesis by simp
    qed
  qed
  have za: "za = PInf \<or> (\<exists>z. za = Fin z \<and> 1 \<le> z)"
    unfolding za_def using a by (rule plus)
  have zb: "zb = PInf \<or> (\<exists>z. zb = Fin z \<and> 1 \<le> z)"
    unfolding zb_def using b by (rule plus)
  have "fle (fdiv (Fin 1) zb) (fdiv (Fin 1) za)"
  proof -
    consider "zb = PInf" | u v where "za = Fin u" "zb = Fin v" "1 \<le> u" "u \<le> v"
      using za zb zab by auto
    then show ?thesis
    proof cases
      case 1
      have "\<exists>r. fdiv (Fin 1) za = Fin r \<and> 0 \<le> r"
        using za reciprocal_range by (auto; fastforce)
      with 1 show ?thesis by auto
    next
      case 2
      then have "1 / v \<le> 1 / u"
        by (intro divide_left_mono) simp_all
      then have "fle (round64 (1 / v)) (round64 (1 / u))"
        by (rule round64_mono)
      with 2 show ?thesis by simp
    qed
  qed
  then show ?thesis
    by (simp add: logistic_def a_def b_def za_def zb_def)
qed

text \<open>
  C8 as stated: the logistic function is strictly increasing and its value lies
  strictly between 0 and 1 on every finite input. In doubles \<open>1 + exp(-x)\<close> is
  exactly 1 from \<open>x = 64\<close> on (in fact from 37 on), and \<open>exp(-x)\<close> overflows for
  \<open>x = -1024\<close> (in fact from -710 down): there the value is exactly 1 and exactly
  0, and it does not grow from 64 to 128.
\<close>

theorem logistic_strict_counterexample:
  "logistic (Fin 64) = Fin 1 \<and> logistic (Fin (- 1024)) = Fin 0
   \<and> \<not> fgt (logistic (Fin 128)) (logistic (Fin 64))"
  by (simp add: logistic_saturates_high logistic_saturates_low)

text \<open>
  C8, amended. The logistic function is 0.5 at 0; on every finite input its value
  is a finite number from 0 to 1, both ends included; and it never decreases:
  for \<open>x <= y\<close> its value at \<open>x\<close> is at most, and so not greater than, its value
  at \<open>y\<close>.
\<close>

theorem logistic_properties:
  "logistic (Fin 0) = Fin (1 / 2)
   \<and> (\<forall>x. \<exists>y. logistic (Fin x) = Fin y \<and> 0 \<le> y \<and> y \<le> 1)
   \<and> (\<forall>x y. x \<le> y \<longrightarrow> fle (logistic (Fin x)) (logistic (Fin y))
                       \<and> \<not> fgt (logistic (Fin x)) (logistic (Fin y)))"
proof (intro conjI allI impI)
  show "logistic (Fin 0) = Fin (1 / 2)"
    by (simp add: logistic_def)
next
  fix x :: real
  show "\<exists>y. logistic (Fin x) = Fin y \<and> 0 \<le> y \<and> y \<le> 1"
    by (rule logistic_range)
next
  fix x y :: real
  assume "x \<le> y"
  then show "fle (logistic (Fin x)) (logistic (Fin y))"
    by (rule logistic_mono)
  then show "\<not> fgt (logistic (Fin x)) (logistic (Fin y))"
    by (rule fle_not_fgt)
qed

theorem logistic_properties_witness:
  "(0::real) \<le> 1 \<and> fle (logistic (Fin 0)) (logistic (Fin 1))
   \<and> \<not> fgt (logistic (Fin 0)) (logistic (Fin 1))"
proof -
  have "(0::real) \<le> 1" by simp
  with logistic_properties show ?thesis by blast
qed

section \<open>Shapes\<close>

lemma or_raise_Inr [simp]: "or_raise (Inr x) s k = k x"
  by (simp add: or_raise_def)

lemma or_raise_Inl [simp]: "or_raise (Inl e) s k = (Inl e, s)"
  by (simp add: or_raise_def)

lemma nrows_ops [simp]:
  "nrows (np_insert_col0 v A) = nrows A"
  "nrows (map_cells f A) = nrows A"
  "nrows (force_col0 v A) = nrows A"
  "nrows (np_T A) = ncols A"
  "nrows (mat_mul B C) = nrows B"
  "nrows (zip_cells g A A') = min (nrows A) (nrows A')"
  "nrows (drop_col0 A) = nrows A"
  "nrows (np_ones m n) = m"
  "nrows (rand_array m n gen) = m"
  "nrows (div_count B k) = nrows B"
  "nrows (scale c B) = nrows B"
  "nrows (square B) = nrows B"
  by (simp_all add: nrows_def np_insert_col0_def map_cells_def force_col0_def np_T_def
      mat_mul_def zip_cells_def drop_col0_def np_ones_def rand_array_def div_count_def
      scale_def square_def)

lemma ncols_ops [simp]:
  "ncols (np_insert_col0 v A) = Suc (ncols A)"
  "ncols (map_cells f A) = ncols A"
  "ncols (force_col0 v A) = ncols A"
  "ncols (np_T A) = nrows A"
  "ncols (mat_mul B C) = ncols C"
  "ncols (zip_cells g A A') = ncols A"
  "ncols (drop_col0 A) = ncols A - 1"
  "ncols (np_ones m n) = n"
  "ncols (rand_array m n gen) = n"
  "ncols (div_count B k) = ncols B"
  "ncols (scale c B) = ncols B"
  "ncols (square B) = ncols B"
  by (simp_all add: nrows_def np_insert_col0_def map_cells_def force_col0_def np_T_def
      mat_mul_def zip_cells_def drop_col0_def np_ones_def rand_array_def div_count_def
      scale_def square_def)

lemma np_random_rand_parts [simp]:
  "fst (np_random_rand m n w) = rand_array m n (rng w)"
  "snd (np_random_rand m n w) = advance (m * n) w"
  "fst (np_random_rand1 n w) = rand_list n (rng w)"
  "snd (np_random_rand1 n w) = advance n w"
  by (simp_all add: np_random_rand_def np_random_rand1_def)

lemma advance_fields [simp]:
  "rng (advance n w) = (\<lambda>k. rng w (k + n))"
  "printed (advance n w) = printed w"
  by (simp_all add: advance_def)

text \<open>
  With the weights in shape and data of \<open>num_visible\<close> columns, nothing in an epoch
  raises, and the object leaves it with the weights of the specification's update.
\<close>

lemma train_epoch_spec:
  assumes "np_shape (weights self) = (Suc (ncols data), Suc (num_hidden self))"
  shows "train_epoch (np_insert_col0 (Fin 1) data) (nrows data) learning_rate epoch (self, w) =
     (Inr (),
      self\<lparr>weights :=
        spec_update learning_rate (np_insert_col0 (Fin 1) data)
          (rand_array (nrows data) (Suc (num_hidden self)) (rng w)) (weights self)\<rparr>,
      (if debug_print self
       then (\<lambda>w'. w'\<lparr>printed := printed w' @
               [(epoch, np_sum (square (zip_cells fsub (np_insert_col0 (Fin 1) data)
                  (spec_neg_visible_probs (weights self)
                     (spec_hidden_states (weights self) (np_insert_col0 (Fin 1) data)
                        (rand_array (nrows data) (Suc (num_hidden self)) (rng w)))))))]\<rparr>)
       else (\<lambda>w'. w'))
        (advance (nrows data * Suc (num_hidden self)) w))"
  using assms
  by (simp add: train_epoch_def np_shape_def np_dot_def set_col0_def cellwise_def Let_def
      spec_update_def spec_pos_hidden_probs_def spec_hidden_states_def
      spec_pos_associations_def spec_neg_visible_probs_def spec_neg_hidden_probs_def
      spec_neg_associations_def)

lemma spec_update_shape:
  assumes "np_shape W = (ncols D, n)"
  shows "np_shape (spec_update learning_rate D U W) = np_shape W"
  using assms
  by (simp add: np_shape_def spec_update_def spec_pos_associations_def
      spec_neg_associations_def spec_neg_visible_probs_def)

lemma train_loop_spec:
  assumes "np_shape (weights self) = (Suc (ncols data), Suc (num_hidden self))"
  shows "fst (train_loop (np_insert_col0 (Fin 1) data) (nrows data) learning_rate epochs (self, w))
           = Inr ()
       \<and> fst (snd (train_loop (np_insert_col0 (Fin 1) data) (nrows data) learning_rate epochs
                     (self, w)))
           = self\<lparr>weights := fst (spec_train learning_rate (np_insert_col0 (Fin 1) data)
                                   (length epochs) (weights self, rng w))\<rparr>
       \<and> rng (snd (snd (train_loop (np_insert_col0 (Fin 1) data) (nrows data) learning_rate
                          epochs (self, w))))
           = snd (spec_train learning_rate (np_insert_col0 (Fin 1) data) (length epochs)
                   (weights self, rng w))"
  using assms
proof (induction epochs arbitrary: self w)
  case Nil
  then show ?case by simp
next
  case (Cons epoch epochs)
  let ?D = "np_insert_col0 (Fin 1) data"
  let ?U = "rand_array (nrows data) (Suc (num_hidden self)) (rng w)"
  let ?self' = "self\<lparr>weights := spec_update learning_rate ?D ?U (weights self)\<rparr>"
  have cols: "ncols (weights self) = Suc (num_hidden self)"
    using Cons.prems by (simp add: np_shape_def)
  have "np_shape (weights ?self') = np_shape (weights self)"
    using Cons.prems spec_update_shape [of "weights self" ?D] by simp
  then have shape': "np_shape (weights ?self') = (Suc (ncols data), Suc (num_hidden ?self'))"
    using Cons.prems by simp
  obtain w' where step:
    "train_epoch ?D (nrows data) learning_rate epoch (self, w) = (Inr (), ?self', w')"
    and rng': "rng w' = (\<lambda>k. rng w (k + nrows data * Suc (num_hidden self)))"
    using train_epoch_spec [OF Cons.prems, of learning_rate epoch w] by (cases "debug_print self") simp_all
  show ?case
    using Cons.IH [OF shape', of w'] by (simp add: step rng' cols)
qed

section \<open>Rectangular and finite arrays\<close>

lemma rect_iff: "rect A \<longleftrightarrow> (\<forall>r \<in> set (rws A). length r = ncols A)"
  by (simp add: rect_def list_all_iff)

lemma all_cells_iff: "all_cells P A \<longleftrightarrow> (\<forall>r \<in> set (rws A). \<forall>x \<in> set r. P x)"
  by (simp add: all_cells_def list_all_iff)

lemma rect_mat_mul [simp]: "rect (mat_mul A B)"
  by (simp add: rect_iff mat_mul_def vec_mat_def)

lemma rect_np_T [simp]: "rect (np_T A)"
  by (auto simp add: rect_iff np_T_def column_def nrows_def)

lemma rect_rand_array [simp]: "rect (rand_array m n gen)"
  by (auto simp add: rect_iff rand_array_def)

lemma rect_map_cells [simp]: "rect (map_cells f A) = rect A"
  by (auto simp add: rect_iff map_cells_def)

lemma rect_scalar_ops [simp]:
  "rect (div_count A k) = rect A" "rect (scale c A) = rect A" "rect (square A) = rect A"
  by (simp_all add: div_count_def scale_def square_def)

lemma rect_force_col0: "rect A \<Longrightarrow> 0 < ncols A \<Longrightarrow> rect (force_col0 v A)"
  by (auto simp add: rect_iff force_col0_def)

lemma rect_np_insert_col0 [simp]: "rect (np_insert_col0 v A) = rect A"
  by (auto simp add: rect_iff np_insert_col0_def)

lemma rect_zip_cells: "rect A \<Longrightarrow> rect B \<Longrightarrow> ncols A = ncols B \<Longrightarrow> rect (zip_cells f A B)"
  by (auto simp add: rect_iff zip_cells_def elim!: in_set_zipE)

lemma set_tl_subset: "x \<in> set (tl r) \<Longrightarrow> x \<in> set r"
  by (cases r) simp_all

section \<open>What the cells of the arrays are\<close>

lemma is_bit_sample [simp]: "is_bit (sample p u)"
  by (simp add: is_bit_def sample_def of_flag_def)

lemma all_bits_sample: "all_cells is_bit (zip_cells sample A U)"
  by (auto simp add: all_cells_iff zip_cells_def elim!: in_set_zipE)

lemma all_cells_map_cells:
  assumes "all_cells P A" and "\<And>x. P x \<Longrightarrow> Q (f x)"
  shows "all_cells Q (map_cells f A)"
  using assms by (auto simp add: all_cells_iff map_cells_def)

lemma all_cells_force_col0:
  assumes "all_cells P A" and "P v"
  shows "all_cells P (force_col0 v A)"
  using assms by (auto simp add: all_cells_iff force_col0_def dest: set_tl_subset)

lemma all_cells_np_insert_col0:
  assumes "all_cells P A" and "P v"
  shows "all_cells P (np_insert_col0 v A)"
  using assms by (auto simp add: all_cells_iff np_insert_col0_def)

lemma all_cells_zip_cells:
  assumes "all_cells P A" and "all_cells Q B" and "\<And>a b. P a \<Longrightarrow> Q b \<Longrightarrow> R (f a b)"
  shows "all_cells R (zip_cells f A B)"
  using assms by (auto simp add: all_cells_iff zip_cells_def elim!: in_set_zipE)

lemma list_all_column:
  "rect B \<Longrightarrow> all_cells P B \<Longrightarrow> j < ncols B \<Longrightarrow> list_all P (column B j)"
  by (auto simp add: rect_iff all_cells_iff column_def list_all_iff)

lemma all_cells_np_T:
  assumes "rect A" and "all_cells P A"
  shows "all_cells P (np_T A)"
proof -
  have "list_all P (column A j)" if "j < ncols A" for j
    using assms that by (rule list_all_column)
  then show ?thesis
    by (auto simp add: all_cells_def np_T_def list_all_iff)
qed

lemma all_cells_mat_mul:
  assumes "all_cells P A" and "all_cells Q B" and "rect B"
    and "\<And>u v. list_all P u \<Longrightarrow> list_all Q v \<Longrightarrow> R (inner u v)"
  shows "all_cells R (mat_mul A B)"
proof -
  have "R (inner u (column B j))" if "u \<in> set (rws A)" and "j < ncols B" for u j
  proof (rule assms(4))
    show "list_all P u"
      using that(1) assms(1) by (simp add: all_cells_def list_all_iff)
    show "list_all Q (column B j)"
      using assms(3,2) that(2) by (rule list_all_column)
  qed
  then show ?thesis
    by (auto simp add: all_cells_iff mat_mul_def vec_mat_def)
qed

text \<open>Inner products: the terms, and the running sum.\<close>

lemma inner_invariant:
  assumes "list_all P u" and "list_all Q v"
    and mul: "\<And>a b. P a \<Longrightarrow> Q b \<Longrightarrow> T (fmul a b)"
    and start: "I (Fin 0)"
    and step: "\<And>s t. I s \<Longrightarrow> T t \<Longrightarrow> I (fadd s t)"
  shows "I (inner u v)"
proof -
  have terms: "list_all T (map2 fmul u v)"
    using assms(1,2) mul by (auto simp add: list_all_iff elim!: in_set_zipE)
  have "I (foldl fadd s ts)" if "I s" and "list_all T ts" for s ts
    using that by (induction ts arbitrary: s) (simp_all add: step)
  with start terms show ?thesis
    by (simp add: inner_def)
qed

lemma is_fin_simps [simp]:
  "is_fin (Fin a)" "\<not> is_fin NaN" "\<not> is_fin PInf" "\<not> is_fin NInf"
  by (simp_all add: is_fin_def)

lemma is_finE: "is_fin x \<Longrightarrow> (\<And>a. x = Fin a \<Longrightarrow> thesis) \<Longrightarrow> thesis"
  by (cases x) simp_all

lemma is_bitE: "is_bit x \<Longrightarrow> (x = Fin 0 \<Longrightarrow> thesis) \<Longrightarrow> (x = Fin 1 \<Longrightarrow> thesis) \<Longrightarrow> thesis"
  by (auto simp add: is_bit_def)

lemma is_probE: "is_prob x \<Longrightarrow> (\<And>p. x = Fin p \<Longrightarrow> 0 \<le> p \<Longrightarrow> p \<le> 1 \<Longrightarrow> thesis) \<Longrightarrow> thesis"
  by (cases x) (simp_all add: is_prob_def)

lemma is_doubleE: "is_double x \<Longrightarrow> (\<And>r. x = Fin r \<Longrightarrow> round64 r = Fin r \<Longrightarrow> thesis) \<Longrightarrow> thesis"
  by (cases x) (simp_all add: is_double_def)

lemma is_countE: "is_count x \<Longrightarrow> (\<And>r. x = Fin r \<Longrightarrow> 0 \<le> r \<Longrightarrow> r \<le> 2 ^ 53 \<Longrightarrow> thesis) \<Longrightarrow> thesis"
  by (cases x) (simp_all add: is_count_def)

lemma is_smallE: "is_small x \<Longrightarrow> (\<And>r. x = Fin r \<Longrightarrow> \<bar>r\<bar> \<le> 2 ^ 53 \<Longrightarrow> thesis) \<Longrightarrow> thesis"
  by (cases x) (simp_all add: is_small_def)

lemma is_bit_is_prob: "is_bit x \<Longrightarrow> is_prob x"
  by (auto simp add: is_bit_def is_prob_def)

lemma round64_prob:
  assumes "0 \<le> p" and "p \<le> 1"
  shows "is_prob (round64 p)"
proof -
  from round64_between [OF round64_zero round64_values(1) assms]
  show ?thesis by (auto simp add: is_prob_def)
qed

lemma round64_2_53: "round64 (2 ^ 53) = Fin (2 ^ 53)"
  using round64_exact [of 1 53] by (simp add: powr_numeral del: power_numeral)

lemma fmul_bit_double: "is_bit a \<Longrightarrow> is_double b \<Longrightarrow> is_fin (fmul a b)"
  by (auto elim!: is_bitE is_doubleE)

lemma fmul_prob_double:
  assumes "is_prob a" and "is_double b"
  shows "is_fin (fmul a b)"
proof -
  from assms obtain p w where a: "a = Fin p" "0 \<le> p" "p \<le> 1"
    and b: "b = Fin w" "round64 w = Fin w"
    by (auto elim!: is_probE is_doubleE)
  have "round64 \<bar>w\<bar> = Fin \<bar>w\<bar>"
    using b(2) by (cases "0 \<le> w") (simp_all add: round64_minus abs_if)
  moreover have "\<bar>p * w\<bar> \<le> \<bar>w\<bar>"
    using a(2,3) by (simp add: abs_mult mult_left_le_one_le)
  ultimately obtain r where "round64 (p * w) = Fin r"
    using round64_bounded by blast
  then show ?thesis
    by (simp add: a b)
qed

lemma fmul_prob_prob:
  assumes "is_prob a" and "is_prob b"
  shows "is_prob (fmul a b)"
proof -
  from assms obtain p q where "a = Fin p" "0 \<le> p" "p \<le> 1" "b = Fin q" "0 \<le> q" "q \<le> 1"
    by (auto elim!: is_probE)
  then show ?thesis
    by (simp add: round64_prob mult_le_one)
qed

lemma fadd_not_nan: "s \<noteq> NaN \<Longrightarrow> is_fin t \<Longrightarrow> fadd s t \<noteq> NaN"
  by (cases s) (auto elim!: is_finE)

lemma fadd_count:
  assumes "is_count s" and "is_prob t"
  shows "is_count (fadd s t)"
proof -
  from assms obtain a p where s: "s = Fin a" "0 \<le> a" "a \<le> 2 ^ 53"
    and t: "t = Fin p" "0 \<le> p" "p \<le> 1"
    by (auto elim!: is_countE is_probE)
  have "rval (a + p) \<le> rval (2 ^ 53 + 1)"
    using s(3) t(3) by (intro rval_mono) simp
  then have "rval (a + p) \<le> 2 ^ 53"
    by (simp only: rval_above_2_53)
  moreover have "0 \<le> rval (a + p)"
    using s(2) t(2) by (intro rval_nonneg) simp
  ultimately show ?thesis
    by (simp add: s(1) t(1) round64_cases is_count_def)
qed

lemma inner_not_nan:
  assumes "list_all P u" and "list_all is_double v" and "\<And>a b. P a \<Longrightarrow> is_double b \<Longrightarrow> is_fin (fmul a b)"
  shows "inner u v \<noteq> NaN"
  by (rule inner_invariant [OF assms(1,2), where T = is_fin and I = "\<lambda>x. x \<noteq> NaN"])
    (simp_all add: assms(3) fadd_not_nan)

lemma inner_bit_double:
  "list_all is_bit u \<Longrightarrow> list_all is_double v \<Longrightarrow> inner u v \<noteq> NaN"
  by (rule inner_not_nan [where P = is_bit]) (simp_all add: fmul_bit_double)

lemma inner_prob_double:
  "list_all is_prob u \<Longrightarrow> list_all is_double v \<Longrightarrow> inner u v \<noteq> NaN"
  by (rule inner_not_nan [where P = is_prob]) (simp_all add: fmul_prob_double)

lemma inner_count:
  assumes "list_all is_prob u" and "list_all is_prob v"
  shows "is_count (inner u v)"
proof (rule inner_invariant [OF assms, where T = is_prob and I = is_count])
  show "is_count (Fin 0)"
    by (simp add: is_count_def)
qed (simp_all add: fmul_prob_prob fadd_count)

lemma logistic_prob:
  assumes "x \<noteq> NaN"
  shows "is_prob (logistic x)"
proof (cases x)
  case (Fin a)
  with logistic_range [of a] show ?thesis
    by (auto simp add: is_prob_def)
qed (use assms in \<open>simp_all add: logistic_def is_prob_def\<close>)


text \<open>
  On binary data with at least one example and weights that are doubles, the
  difference of the associations is a rectangular array of the shape of the
  weights, each cell a finite value of magnitude at most \<open>2 ^ 53\<close>.
\<close>

lemma fsub_small:
  assumes "is_count a" and "is_count b"
  shows "is_small (fsub a b)"
proof -
  from assms obtain x y where a: "a = Fin x" "0 \<le> x" "x \<le> 2 ^ 53"
    and b: "b = Fin y" "0 \<le> y" "y \<le> 2 ^ 53"
    by (auto elim!: is_countE)
  have "\<bar>x + - y\<bar> \<le> 2 ^ 53"
    using a(2,3) b(2,3) by simp
  from round64_bounded [OF round64_2_53 this]
  show ?thesis
    by (auto simp add: fsub_def a(1) b(1) is_small_def)
qed

lemma update_term_zero:
  assumes "is_small d" and "0 < n"
  shows "fmul (Fin 0) (fdiv d (Fin (real n))) = Fin 0"
proof -
  from assms(1) obtain r where d: "d = Fin r" "\<bar>r\<bar> \<le> 2 ^ 53"
    by (auto elim!: is_smallE)
  have "\<bar>r / real n\<bar> \<le> \<bar>r\<bar>"
    using assms(2) by (simp add: divide_le_eq mult_le_cancel_left1)
  with d(2) have "\<bar>r / real n\<bar> \<le> 2 ^ 53"
    by linarith
  from round64_bounded [OF round64_2_53 this]
  obtain q where "round64 (r / real n) = Fin q"
    by blast
  then show ?thesis
    using assms(2) by (simp add: d(1))
qed

lemma map2_fadd_zero:
  "length xs \<le> length zs \<Longrightarrow> list_all is_double xs \<Longrightarrow> list_all (\<lambda>z. z = Fin 0) zs
     \<Longrightarrow> map2 fadd xs zs = xs"
proof (induction xs arbitrary: zs)
  case Nil
  then show ?case by simp
next
  case (Cons x xs)
  then obtain zs' where zs: "zs = Fin 0 # zs'"
    by (cases zs) auto
  have "fadd x (Fin 0) = x"
    using Cons.prems(2) by (auto elim!: is_doubleE)
  with Cons zs show ?case by simp
qed

lemma zip_cells_fadd_zero:
  assumes "rect W" and "all_cells is_double W" and "rect Z" and "np_shape Z = np_shape W"
    and "all_cells (\<lambda>z. z = Fin 0) Z"
  shows "zip_cells fadd W Z = W"
proof -
  have "map2 (map2 fadd) rs zs = rs"
    if "length rs = length zs" and "list_all (\<lambda>r. length r = n) rs"
      and "list_all (\<lambda>r. length r = n) zs" and "list_all (list_all (\<lambda>z. z = Fin 0)) zs"
      and "list_all (list_all is_double) rs"
    for rs zs n
    using that
    by (induction rs zs rule: list_induct2) (simp_all add: map2_fadd_zero)
  with assms show ?thesis
    by (simp add: zip_cells_def rect_def np_shape_def nrows_def all_cells_def)
qed

lemma spec_difference_small:
  assumes W: "rect W" "all_cells is_double W" and D: "rect D" "all_cells is_bit D"
    and shape: "nrows W = ncols D" "0 < ncols D" "0 < ncols W"
    and U: "rect U" "ncols U = ncols W"
  defines "H \<equiv> spec_hidden_states W D U"
  defines "difference \<equiv> zip_cells fsub (spec_pos_associations W D) (spec_neg_associations W H)"
  shows "rect difference" and "all_cells is_small difference"
    and "np_shape difference = np_shape W"
proof -
  let ?P = "spec_pos_hidden_probs W D"
  let ?NV = "spec_neg_visible_probs W H"
  let ?NH = "spec_neg_hidden_probs W H"
  let ?pos = "spec_pos_associations W D"
  let ?neg = "spec_neg_associations W H"
  have one: "is_prob (Fin 1)"
    by (simp add: is_prob_def)
  have WT: "rect (np_T W)" "all_cells is_double (np_T W)"
    using W by (simp_all add: all_cells_np_T)
  have Dp: "all_cells is_prob D"
    using D(2) by (auto simp add: all_cells_iff is_bit_is_prob)
  have "all_cells (\<lambda>x. x \<noteq> NaN) (mat_mul D W)"
    using D(2) W(2,1) by (rule all_cells_mat_mul) (rule inner_bit_double)
  then have "all_cells is_prob (map_cells logistic (mat_mul D W))"
    by (rule all_cells_map_cells) (rule logistic_prob)
  then have P: "rect ?P" "all_cells is_prob ?P" "ncols ?P = ncols W"
    using shape one by (simp_all add: spec_pos_hidden_probs_def rect_force_col0 all_cells_force_col0)
  have H: "rect H" "all_cells is_bit H"
    using P U by (simp_all add: H_def spec_hidden_states_def rect_zip_cells all_bits_sample)
  have "all_cells (\<lambda>x. x \<noteq> NaN) (mat_mul H (np_T W))"
    using H(2) WT(2,1) by (rule all_cells_mat_mul) (rule inner_bit_double)
  then have "all_cells is_prob (map_cells logistic (mat_mul H (np_T W)))"
    by (rule all_cells_map_cells) (rule logistic_prob)
  then have NV: "rect ?NV" "all_cells is_prob ?NV" "ncols ?NV = nrows W"
    using shape one by (simp_all add: spec_neg_visible_probs_def rect_force_col0 all_cells_force_col0)
  have "all_cells (\<lambda>x. x \<noteq> NaN) (mat_mul ?NV W)"
    using NV(2) W(2,1) by (rule all_cells_mat_mul) (rule inner_prob_double)
  then have NH: "rect ?NH" "all_cells is_prob ?NH" "ncols ?NH = ncols W"
    by (simp_all add: spec_neg_hidden_probs_def all_cells_map_cells logistic_prob)
  have pos: "all_cells is_count ?pos" "np_shape ?pos = np_shape W"
  proof -
    have "all_cells is_prob (np_T D)"
      using D(1) Dp by (rule all_cells_np_T)
    then show "all_cells is_count ?pos"
      unfolding spec_pos_associations_def using P(2,1) by (rule all_cells_mat_mul) (rule inner_count)
    show "np_shape ?pos = np_shape W"
      using shape P(3) by (simp add: spec_pos_associations_def np_shape_def)
  qed
  have neg: "all_cells is_count ?neg" "np_shape ?neg = np_shape W"
  proof -
    have "all_cells is_prob (np_T ?NV)"
      using NV(1,2) by (rule all_cells_np_T)
    then show "all_cells is_count ?neg"
      unfolding spec_neg_associations_def using NH(2,1) by (rule all_cells_mat_mul) (rule inner_count)
    show "np_shape ?neg = np_shape W"
      using NV(3) NH(3) by (simp add: spec_neg_associations_def np_shape_def)
  qed
  show "rect difference"
    using pos(2) neg(2)
    by (simp add: difference_def rect_zip_cells np_shape_def
        spec_pos_associations_def spec_neg_associations_def)
  show "all_cells is_small difference"
    unfolding difference_def using pos(1) neg(1) by (rule all_cells_zip_cells) (rule fsub_small)
  show "np_shape difference = np_shape W"
    using pos(2) neg(2) by (simp add: difference_def np_shape_def)
qed

lemma spec_update_zero:
  assumes "rect W" "all_cells is_double W" and "rect D" "all_cells is_bit D"
    and "nrows W = ncols D" "0 < ncols D" "0 < ncols W" and "0 < nrows D"
    and "rect U" "ncols U = ncols W"
  shows "spec_update 0 D U W = W"
proof -
  let ?difference = "zip_cells fsub (spec_pos_associations W D)
                       (spec_neg_associations W (spec_hidden_states W D U))"
  let ?Z = "scale 0 (div_count ?difference (nrows D))"
  note difference = spec_difference_small [OF assms(1-7) assms(9,10)]
  have "all_cells (\<lambda>z. z = Fin 0) ?Z"
    using difference(2) assms(8)
    by (auto simp add: all_cells_iff scale_def div_count_def map_cells_def update_term_zero)
  moreover have "rect ?Z" "np_shape ?Z = np_shape W"
    using difference by (simp_all add: np_shape_def)
  ultimately have "zip_cells fadd W ?Z = W"
    using assms(1,2) by (intro zip_cells_fadd_zero)
  then show ?thesis
    by (simp add: spec_update_def)
qed

lemma spec_train_zero:
  assumes "rect W" "all_cells is_double W" "rect D" "all_cells is_bit D"
    "nrows W = ncols D" "0 < ncols D" "0 < ncols W" "0 < nrows D"
  shows "fst (spec_train 0 D k (W, gen)) = W"
  using assms
  by (induction k arbitrary: gen) (simp_all add: spec_update_zero)

section \<open>Training\<close>

text \<open>
  C1. \<open>train\<close> on data of \<open>num_visible\<close> columns raises nothing and runs
  \<open>max_epochs\<close> epochs, each of which replaces the weights \<open>W\<close> by
  \<open>W + learning_rate * ((pos_associations - neg_associations) / num_examples)\<close>,
  with \<open>pos_associations\<close> the product of the transposed bias-augmented data and
  the positive hidden probabilities (logistic of data times weights, column 0 set to
  1 before sampling) and \<open>neg_associations\<close> the product of the transposed
  reconstructed visible probabilities (logistic of sampled states times transposed
  weights, column 0 set to 1) and the logistic of their product with the weights,
  whose column 0 is left as computed.
\<close>

theorem train_is_spec_train:
  assumes "rbm_inv self" and "ncols data = num_visible self"
  shows "fst (train self data max_epochs learning_rate w) = Inr ()
       \<and> fst (snd (train self data max_epochs learning_rate w))
           = self\<lparr>weights := fst (spec_train learning_rate (np_insert_col0 (Fin 1) data)
                                   (nat max_epochs) (weights self, rng w))\<rparr>
       \<and> rng (snd (snd (train self data max_epochs learning_rate w)))
           = snd (spec_train learning_rate (np_insert_col0 (Fin 1) data) (nat max_epochs)
                   (weights self, rng w))"
proof -
  have "np_shape (weights self) = (Suc (ncols data), Suc (num_hidden self))"
    using assms by (simp add: rbm_inv_def)
  from train_loop_spec [OF this, of learning_rate "[0..<nat max_epochs]" w]
  show ?thesis
    by (simp add: train_def)
qed

theorem train_is_spec_train_witness:
  "rbm_inv rbm11 \<and> ncols one_example = num_visible rbm11
   \<and> fst (train rbm11 one_example 1 1 draws34) = Inr ()
   \<and> weights (fst (snd (train rbm11 one_example 1 1 draws34)))
       = \<lparr>ncols = 2, rws = [[Fin (1 / 2), Fin 0], [Fin (3 / 4), Fin (1 / 4)]]\<rparr>"
proof -
  have inv: "rbm_inv rbm11" and cols: "ncols one_example = num_visible rbm11"
    by (simp_all add: rbm_inv_def example_defs np_shape_def nrows_def)
  have "fst (spec_train 1 (np_insert_col0 (Fin 1) one_example) (nat 1)
               (weights rbm11, rng draws34))
          = \<lparr>ncols = 2, rws = [[Fin (1 / 2), Fin 0], [Fin (3 / 4), Fin (1 / 4)]]\<rparr>"
    by (simp add: example_defs spec_update_def spec_pos_associations_def
        spec_neg_associations_def spec_neg_visible_probs_def spec_neg_hidden_probs_def
        spec_pos_hidden_probs_def spec_hidden_states_def array_defs float_defs upt_rec)
  with train_is_spec_train [OF inv cols, of 1 1 draws34] inv cols
  show ?thesis by simp
qed

text \<open>
  C6 as stated: with learning rate 0, \<open>train\<close> leaves the weights unchanged for
  every data set of \<open>num_visible\<close> columns. A data set without rows has
  \<open>num_examples = 0\<close>: the update divides the zero array by 0, and
  \<open>0 * nan\<close> added to the weights makes every weight \<open>nan\<close>.
\<close>

theorem train_zero_rate_counterexample:
  "rbm_inv rbm11 \<and> ncols no_examples = num_visible rbm11
   \<and> fst (train rbm11 no_examples 1 0 draws34) = Inr ()
   \<and> weights (fst (snd (train rbm11 no_examples 1 0 draws34)))
       = \<lparr>ncols = 2, rws = [[NaN, NaN], [NaN, NaN]]\<rparr>
   \<and> weights (fst (snd (train rbm11 no_examples 1 0 draws34))) \<noteq> weights rbm11"
  by (simp add: rbm_inv_def train_def train_epoch_def example_defs no_examples_def np_dot_def
      set_col0_def cellwise_def np_random_rand_def advance_def array_defs float_defs upt_rec)

text \<open>
  C6, amended. With learning rate 0, \<open>train\<close> on a binary data set (every cell 0
  or 1) of \<open>num_visible\<close> columns that has at least one example, by a machine
  whose weights are finite doubles, raises nothing and leaves the object, its
  weights included, exactly as it was, whatever the epoch count and the draws.
  (Data that is finite but not binary does not do: sums of its cells can overflow,
  as in \<open>finite_sum_overflows\<close>, and \<open>0 * inf\<close> is \<open>nan\<close>.)
\<close>

theorem train_zero_rate:
  assumes "rbm_inv self" and "rect (weights self)" and "all_cells is_double (weights self)"
    and "rect data" and "all_cells is_bit data"
    and "ncols data = num_visible self" and "0 < nrows data"
  shows "fst (train self data max_epochs 0 w) = Inr ()
       \<and> fst (snd (train self data max_epochs 0 w)) = self"
proof -
  let ?D = "np_insert_col0 (Fin 1) data"
  have shape: "np_shape (weights self) = (Suc (ncols data), Suc (num_hidden self))"
    using assms by (simp add: rbm_inv_def)
  have "all_cells is_bit ?D"
    using assms(5) by (rule all_cells_np_insert_col0) (simp add: is_bit_def)
  then have "fst (spec_train 0 ?D (nat max_epochs) (weights self, rng w)) = weights self"
    using assms shape
    by (intro spec_train_zero) (simp_all add: np_shape_def)
  with train_loop_spec [OF shape, of 0 "[0..<nat max_epochs]" w]
  show ?thesis
    by (simp add: train_def)
qed

theorem train_zero_rate_witness:
  "rbm_inv rbm11 \<and> rect (weights rbm11) \<and> all_cells is_double (weights rbm11)
   \<and> rect one_example \<and> all_cells is_bit one_example
   \<and> ncols one_example = num_visible rbm11 \<and> 0 < nrows one_example
   \<and> fst (train rbm11 one_example 5 0 draws34) = Inr ()
   \<and> weights (fst (snd (train rbm11 one_example 5 0 draws34))) = zeros22"
proof -
  have h: "rbm_inv rbm11" "rect (weights rbm11)" "all_cells is_double (weights rbm11)"
    "rect one_example" "all_cells is_bit one_example"
    "ncols one_example = num_visible rbm11" "0 < nrows one_example"
    by (simp_all add: rbm_inv_def example_defs np_shape_def nrows_def rect_def all_cells_def
        is_double_def is_bit_def)
  have "weights rbm11 = zeros22"
    by (simp add: rbm11_def)
  with train_zero_rate [OF h, of 5 draws34] h show ?thesis
    by simp
qed

section \<open>Input of the wrong width\<close>

text \<open>
  C9. Nothing checks the width of the input. When the column count of the data is
  not \<open>num_visible\<close> (for \<open>train\<close> and \<open>run_visible\<close>) or not \<open>num_hidden\<close> (for
  \<open>run_hidden\<close>), the first matrix product raises \<open>ValueError\<close>, and the call ends
  there with the object and the generator as they were; in \<open>train\<close>, which reaches
  the product when it has an epoch to run, no weight has been updated.
\<close>

theorem mismatch_raises:
  assumes "rbm_inv self"
  shows "(ncols data \<noteq> num_visible self \<longrightarrow>
            np_dot (np_insert_col0 (Fin 1) data) (weights self) = Inl ValueError
          \<and> run_visible self data w = (Inl ValueError, w)
          \<and> (0 < max_epochs \<longrightarrow>
               train self data max_epochs learning_rate w = (Inl ValueError, self, w)))
       \<and> (ncols data \<noteq> num_hidden self \<longrightarrow>
            np_dot (np_insert_col0 (Fin 1) data) (np_T (weights self)) = Inl ValueError
          \<and> run_hidden self data w = (Inl ValueError, w))"
proof -
  have shape: "nrows (weights self) = Suc (num_visible self)"
    "ncols (weights self) = Suc (num_hidden self)"
    using assms by (simp_all add: rbm_inv_def np_shape_def)
  have epochs: "[0..<nat max_epochs] = 0 # [1..<nat max_epochs]" if "0 < max_epochs"
    using that by (simp add: upt_conv_Cons)
  show ?thesis
    using shape
    by (auto simp add: np_dot_def run_visible_def run_hidden_def train_def epochs
        train_epoch_def)
qed

theorem mismatch_raises_witness:
  "rbm_inv rbm11 \<and> ncols two_columns \<noteq> num_visible rbm11 \<and> ncols two_columns \<noteq> num_hidden rbm11
   \<and> (0::int) < 3
   \<and> run_visible rbm11 two_columns draws34 = (Inl ValueError, draws34)
   \<and> run_hidden rbm11 two_columns draws34 = (Inl ValueError, draws34)
   \<and> train rbm11 two_columns 3 (1 / 10) draws34 = (Inl ValueError, rbm11, draws34)"
proof -
  have h: "rbm_inv rbm11"
    and c: "ncols two_columns \<noteq> num_visible rbm11" "ncols two_columns \<noteq> num_hidden rbm11"
    by (simp_all add: rbm_inv_def example_defs two_columns_def np_shape_def nrows_def)
  from mismatch_raises [OF h, of two_columns draws34 3 "1 / 10"] h c show ?thesis
    by simp
qed

section \<open>Sampling one layer from the other\<close>

lemma all_cells_drop_col0: "all_cells P A \<Longrightarrow> all_cells P (drop_col0 A)"
  by (auto simp add: all_cells_iff drop_col0_def dest: set_tl_subset)

lemma rect_drop_col0: "rect A \<Longrightarrow> rect (drop_col0 A)"
  by (auto simp add: rect_iff drop_col0_def)

text \<open>
  C3. On data of \<open>num_visible\<close> columns \<open>run_visible\<close> returns an array of shape
  (\<open>num_examples\<close>, \<open>num_hidden\<close>) whose cells are 0 or 1, and on data of
  \<open>num_hidden\<close> columns \<open>run_hidden\<close> returns one of shape (\<open>num_examples\<close>,
  \<open>num_visible\<close>) whose cells are 0 or 1: the bias column computed inside is
  dropped from the result.
\<close>

theorem run_shapes_and_bits:
  assumes "rbm_inv self"
  shows "(ncols data = num_visible self \<longrightarrow>
            (\<exists>out. run_visible self data w
                     = (Inr out, advance (nrows data * (num_hidden self + 1)) w)
               \<and> rect out \<and> np_shape out = (nrows data, num_hidden self)
               \<and> all_cells is_bit out))
       \<and> (ncols data = num_hidden self \<longrightarrow>
            (\<exists>out. run_hidden self data w
                     = (Inr out, advance (nrows data * (num_visible self + 1)) w)
               \<and> rect out \<and> np_shape out = (nrows data, num_visible self)
               \<and> all_cells is_bit out))"
proof -
  have shape: "nrows (weights self) = Suc (num_visible self)"
    "ncols (weights self) = Suc (num_hidden self)"
    using assms by (simp_all add: rbm_inv_def np_shape_def)
  show ?thesis
    using shape
    by (auto simp add: np_dot_def run_visible_def run_hidden_def cellwise_def store_all_def
        np_shape_def all_bits_sample all_cells_drop_col0 rect_drop_col0 rect_zip_cells Let_def)
qed

theorem run_shapes_and_bits_witness:
  "rbm_inv rbm11 \<and> ncols one_example = num_visible rbm11 \<and> ncols hidden_input = num_hidden rbm11
   \<and> fst (run_visible rbm11 one_example draws34) = Inr \<lparr>ncols = 1, rws = [[Fin 0]]\<rparr>
   \<and> fst (run_hidden rbm11 hidden_input draws34) = Inr \<lparr>ncols = 1, rws = [[Fin 0], [Fin 0]]\<rparr>"
proof -
  have h: "rbm_inv rbm11"
    and c: "ncols one_example = num_visible rbm11" "ncols hidden_input = num_hidden rbm11"
    by (simp_all add: rbm_inv_def example_defs hidden_input_def np_shape_def nrows_def)
  have v: "fst (run_visible rbm11 one_example draws34) = Inr \<lparr>ncols = 1, rws = [[Fin 0]]\<rparr>"
    by (simp add: run_visible_def example_defs np_dot_def cellwise_def store_all_def
        array_defs float_defs upt_rec)
  have "fst (run_hidden rbm11 hidden_input draws34) = Inr \<lparr>ncols = 1, rws = [[Fin 0], [Fin 0]]\<rparr>"
    by (simp add: run_hidden_def example_defs hidden_input_def np_dot_def cellwise_def
        store_all_def array_defs float_defs upt_rec)
  with run_shapes_and_bits [OF h, of one_example draws34] h c v show ?thesis
    by simp
qed

section \<open>Daydreaming\<close>

lemma length_vec_mat [simp]: "length (vec_mat u B) = ncols B"
  by (simp add: vec_mat_def)

lemma length_rand_list [simp]: "length (rand_list n gen) = n"
  by (simp add: rand_list_def)

lemma gibbs_step_bits:
  assumes "np_shape (weights self) = (Suc (num_visible self), Suc (num_hidden self))"
    and "length visible = Suc (num_visible self)"
  shows "\<exists>visible_states.
           gibbs_step self visible w
             = (Inr visible_states, advance (Suc (num_visible self)) (advance (Suc (num_hidden self)) w))
         \<and> length visible_states = Suc (num_visible self)
         \<and> list_all is_bit visible_states"
proof -
  let ?hidden = "map2 sample (map logistic (vec_mat visible (weights self)))
                   (rand_list (Suc (num_hidden self)) (rng w))"
  have shape: "nrows (weights self) = Suc (num_visible self)"
    "ncols (weights self) = Suc (num_hidden self)"
    using assms(1) by (simp_all add: np_shape_def)
  have "length ?hidden = Suc (num_hidden self)"
    using shape by simp
  then obtain h hs where hidden: "?hidden = h # hs" and hs: "length hs = num_hidden self"
    by (cases ?hidden) simp_all
  have bits: "list_all is_bit (map2 sample ps us)" for ps us
    by (auto simp add: list_all_iff elim!: in_set_zipE)
  show ?thesis
    using shape assms(2) hs
    by (simp add: gibbs_step_def np_dot1_def sample1_def set_item0_def hidden bits)
qed

lemma daydream_loop_rows:
  assumes "np_shape (weights self) = (Suc (num_visible self), Suc (num_hidden self))"
    and "rect samples" and "ncols samples = Suc (num_visible self)"
    and "list_all (\<lambda>i. 0 < i \<and> i < nrows samples) steps"
  shows "\<exists>result w'.
           daydream_loop self steps (samples, w) = (Inr result, w')
         \<and> rect result \<and> np_shape result = np_shape samples
         \<and> (\<forall>j < nrows samples.
               if j \<in> set steps then list_all is_bit (rws result ! j)
               else rws result ! j = rws samples ! j)"
  using assms(2-)
proof (induction steps arbitrary: samples w)
  case Nil
  then show ?case by simp
next
  case (Cons i steps)
  let ?visible = "rws samples ! (i - 1)"
  have i: "0 < i" "i < nrows samples"
    using Cons.prems(3) by simp_all
  then have "?visible \<in> set (rws samples)"
    by (simp add: nrows_def)
  then have "length ?visible = Suc (num_visible self)"
    using Cons.prems(1,2) by (simp add: rect_iff)
  from gibbs_step_bits [OF assms(1) this, of w]
  obtain vs w1 where step: "gibbs_step self ?visible w = (Inr vs, w1)"
    and vs: "length vs = Suc (num_visible self)" "list_all is_bit vs"
    by blast
  let ?samples1 = "samples\<lparr>rws := (rws samples)[i := vs]\<rparr>"
  have store: "store_row i vs samples = Inr ?samples1"
    using i vs(1) Cons.prems(2) by (simp add: store_row_def)
  have rect1: "rect ?samples1"
    using Cons.prems(1,2) vs(1) by (auto simp add: rect_iff dest!: set_update_subset_insert [THEN subsetD])
  have n1: "nrows ?samples1 = nrows samples" "ncols ?samples1 = Suc (num_visible self)"
    using Cons.prems(2) by (simp_all add: nrows_def)
  have steps1: "list_all (\<lambda>i. 0 < i \<and> i < nrows ?samples1) steps"
    using Cons.prems(3) n1 by simp
  from Cons.IH [OF rect1 n1(2) steps1, of w1]
  obtain result w' where loop: "daydream_loop self steps (?samples1, w1) = (Inr result, w')"
    and result: "rect result" "np_shape result = np_shape ?samples1"
      "\<forall>j < nrows ?samples1.
         if j \<in> set steps then list_all is_bit (rws result ! j)
         else rws result ! j = rws ?samples1 ! j"
    by blast
  have "daydream_loop self (i # steps) (samples, w) = (Inr result, w')"
    using step store loop by (simp add: Let_def)
  moreover have "np_shape result = np_shape samples"
    using result(2) by (simp add: np_shape_def nrows_def)
  moreover have "\<forall>j < nrows samples.
      if j \<in> set (i # steps) then list_all is_bit (rws result ! j)
      else rws result ! j = rws samples ! j"
  proof (intro allI impI)
    fix j assume j: "j < nrows samples"
    then have r: "if j \<in> set steps then list_all is_bit (rws result ! j)
         else rws result ! j = rws ?samples1 ! j"
      using result(3) n1(1) by simp
    show "if j \<in> set (i # steps) then list_all is_bit (rws result ! j)
      else rws result ! j = rws samples ! j"
    proof (cases "j \<in> set steps")
      case True
      with r show ?thesis by simp
    next
      case False
      with r have eq: "rws result ! j = (rws samples)[i := vs] ! j" by simp
      show ?thesis
      proof (cases "j = i")
        case True
        with eq i vs(2) show ?thesis by (simp add: nrows_def)
      next
        case False
        with eq \<open>j \<notin> set steps\<close> show ?thesis by simp
      qed
    qed
  qed
  ultimately show ?case
    using result(1) by blast
qed

text \<open>
  C4. For a positive \<open>num_samples\<close>, with draws in [0, 1), \<open>daydream\<close> returns an
  array of shape (\<open>num_samples\<close>, \<open>num_visible\<close>), the bias column removed: row 0
  holds the raw draws, each in [0, 1), and every cell of the rows after it is 0 or 1.
\<close>

theorem daydream_shape_and_cells:
  assumes "rbm_inv self" and "0 < num_samples"
    and "\<forall>k. 0 \<le> rng w k \<and> rng w k < 1"
  shows "\<exists>out w'. daydream self num_samples w = (Inr out, w')
       \<and> rect out \<and> np_shape out = (num_samples, num_visible self)
       \<and> list_all is_unit_draw (rws out ! 0)
       \<and> (\<forall>i. 0 < i \<and> i < num_samples \<longrightarrow> list_all is_bit (rws out ! i))"
proof -
  let ?n = num_samples
  let ?first = "Fin 1 # map Fin (rand_list (num_visible self) (rng w))"
  let ?samples = "(np_ones ?n (Suc (num_visible self)))
                    \<lparr>rws := (rws (np_ones ?n (Suc (num_visible self))))[0 := ?first]\<rparr>"
  have shape: "np_shape (weights self) = (Suc (num_visible self), Suc (num_hidden self))"
    using assms(1) by (simp add: rbm_inv_def)
  have rect: "rect ?samples"
    by (auto simp add: rect_iff np_ones_def dest!: set_update_subset_insert [THEN subsetD])
  have cols: "ncols ?samples = Suc (num_visible self)" and rows: "nrows ?samples = ?n"
    by (simp_all add: np_ones_def nrows_def)
  have steps: "list_all (\<lambda>i. 0 < i \<and> i < nrows ?samples) [1..<?n]"
    by (simp add: rows list_all_iff)
  from daydream_loop_rows [OF shape rect cols steps, of "advance (num_visible self) w"]
  obtain result w' where loop:
      "daydream_loop self [1..<?n] (?samples, advance (num_visible self) w) = (Inr result, w')"
    and result: "rect result" "np_shape result = np_shape ?samples"
      "\<forall>j < nrows ?samples.
         if j \<in> set [1..<?n] then list_all is_bit (rws result ! j)
         else rws result ! j = rws ?samples ! j"
    by blast
  have run: "daydream self ?n w = (Inr (drop_col0 result), w')"
    using assms(2) loop by (simp add: daydream_def daydream_samples_def Let_def)
  have n: "nrows result = ?n" "ncols result = Suc (num_visible self)"
    using result(2) rows cols by (simp_all add: np_shape_def)
  have row0: "rws result ! 0 = ?first"
    using result(3) assms(2) rows by (auto simp add: np_ones_def dest: spec [of _ 0])
  have "list_all is_unit_draw (map Fin (rand_list (num_visible self) (rng w)))"
    using assms(3) by (simp add: list_all_iff rand_list_def is_unit_draw_def)
  then have first: "list_all is_unit_draw (rws (drop_col0 result) ! 0)"
    using row0 assms(2) n(1) by (simp add: drop_col0_def nrows_def)
  have later: "list_all is_bit (rws (drop_col0 result) ! i)" if "0 < i" "i < ?n" for i
  proof -
    have "list_all is_bit (rws result ! i)"
      using result(3) that rows by (auto dest: spec [of _ i])
    then have "list_all is_bit (tl (rws result ! i))"
      by (auto simp add: list_all_iff dest: set_tl_subset)
    then show ?thesis
      using that n(1) by (simp add: drop_col0_def nrows_def)
  qed
  show ?thesis
    using run result(1) n first later
    by (auto simp add: np_shape_def rect_drop_col0)
qed


theorem daydream_shape_and_cells_witness:
  "rbm_inv rbm11 \<and> (0::nat) < 3 \<and> (\<forall>k. 0 \<le> rng draws34 k \<and> rng draws34 k < 1)
   \<and> fst (daydream rbm11 3 draws34) = Inr \<lparr>ncols = 1, rws = [[Fin (3 / 4)], [Fin 0], [Fin 0]]\<rparr>"
proof -
  have h: "rbm_inv rbm11" "(0::nat) < 3" "\<forall>k. 0 \<le> rng draws34 k \<and> rng draws34 k < 1"
    by (simp_all add: rbm_inv_def example_defs np_shape_def nrows_def)
  have "fst (daydream rbm11 3 draws34)
          = Inr \<lparr>ncols = 1, rws = [[Fin (3 / 4)], [Fin 0], [Fin 0]]\<rparr>"
    by (simp add: daydream_def daydream_samples_def gibbs_step_def example_defs np_dot1_def
        sample1_def set_item0_def store_row_def advance_def array_defs float_defs upt_rec
        numeral_3_eq_3)
  with daydream_shape_and_cells [OF h] h show ?thesis
    by simp
qed

text \<open>
  C5 says that the row of \<open>samples\<close> read at a step has bias cell 1, and the comment
  at the end of \<open>daydream\<close> says of the bias column "they're always set to 1". The
  loop stores \<open>visible_states\<close> as sampled, bias cell included. On the machine that
  the constructor builds for one visible and one hidden unit when its seeded draw is
  0.5, with every draw of the module generator 0.75: the bias cell of row 1 is 0
  after step 1, and step 2 reads that row.
\<close>

theorem daydream_bias_not_clamped:
  "fst (rbm_init (\<lambda>seed k. 1 / 2) 1 1 draws34) = Inr rbm11
   \<and> fst (daydream_loop rbm11 [1]
            (\<lparr>ncols = 2, rws = [[Fin 1, Fin (3 / 4)], [Fin 1, Fin 1], [Fin 1, Fin 1]]\<rparr>, draws34))
       = Inr \<lparr>ncols = 2, rws = [[Fin 1, Fin (3 / 4)], [Fin 0, Fin 0], [Fin 1, Fin 1]]\<rparr>
   \<and> fst (daydream_samples rbm11 3 draws34)
       = Inr \<lparr>ncols = 2, rws = [[Fin 1, Fin (3 / 4)], [Fin 0, Fin 0], [Fin 0, Fin 0]]\<rparr>"
proof (intro conjI)
  show "fst (rbm_init (\<lambda>seed k. 1 / 2) 1 1 draws34) = Inr rbm11"
    by (simp add: rbm_init_def uniform_def example_defs array_defs upt_rec)
  show "fst (daydream_loop rbm11 [1]
            (\<lparr>ncols = 2, rws = [[Fin 1, Fin (3 / 4)], [Fin 1, Fin 1], [Fin 1, Fin 1]]\<rparr>, draws34))
       = Inr \<lparr>ncols = 2, rws = [[Fin 1, Fin (3 / 4)], [Fin 0, Fin 0], [Fin 1, Fin 1]]\<rparr>"
    by (simp add: gibbs_step_def example_defs np_dot1_def
        sample1_def set_item0_def store_row_def advance_def array_defs float_defs upt_rec)
  show "fst (daydream_samples rbm11 3 draws34)
       = Inr \<lparr>ncols = 2, rws = [[Fin 1, Fin (3 / 4)], [Fin 0, Fin 0], [Fin 0, Fin 0]]\<rparr>"
    by (simp add: daydream_samples_def gibbs_step_def example_defs np_dot1_def
        sample1_def set_item0_def store_row_def advance_def array_defs float_defs upt_rec
        numeral_3_eq_3)
qed

section \<open>The constructor\<close>


lemma rect_uniform [simp]: "rect (uniform np_rng low high m n)"
  by (auto simp add: rect_iff uniform_def)

lemma rect_np_insert_row0 [simp]: "rect (np_insert_row0 v A) = rect A"
  by (simp add: rect_def np_insert_row0_def)



text \<open>
  C10. The constructor draws from a generator of its own, seeded with 1234: the
  object it builds is the same whatever the state of the module-level generator
  and whatever the seeded generators of other seeds are, and it leaves the
  module-level generator as it was.
\<close>

theorem rbm_init_deterministic:
  "fst (rbm_init random_state nv nh w1) = fst (rbm_init (\<lambda>seed. random_state 1234) nv nh w2)
   \<and> snd (rbm_init random_state nv nh w1) = w1"
  by (simp add: rbm_init_def)

section \<open>What training touches\<close>

lemma heap_ops [simp]:
  "next_ref (new_array A h) = Suc (next_ref h)"
  "arrays (new_array A h) r = (if r = next_ref h then A else arrays h r)"
  "next_ref (put_array r A h) = next_ref h"
  "arrays (put_array r A h) r' = (if r' = r then A else arrays h r')"
  by (simp_all add: new_array_def put_array_def)



lemma or_raise_cases:
  assumes "\<And>e. r = Inl e \<Longrightarrow> P (Inl e, s)" and "\<And>x. r = Inr x \<Longrightarrow> P (k x)"
  shows "P (or_raise r s k)"
  using assms by (cases r) simp_all

lemma train_epoch_frame:
  "\<exists>W'. fst (snd (train_epoch D n learning_rate epoch (self, w))) = self\<lparr>weights := W'\<rparr>
       \<and> np_shape W' = np_shape (weights self)"
proof -
  let ?P = "\<lambda>r :: (error + unit) \<times> rbm \<times> world.
      \<exists>W'. fst (snd r) = self\<lparr>weights := W'\<rparr> \<and> np_shape W' = np_shape (weights self)"
  have same: "?P (x, self, w')" for x w'
    by (intro exI [of _ "weights self"]) simp
  have upd: "?P (x, self\<lparr>weights := zip_cells f (weights self) X\<rparr>, w')"
    if "np_shape (weights self) = np_shape X" for x w' X and f :: "npfloat \<Rightarrow> npfloat \<Rightarrow> npfloat"
    using that by (intro exI [of _ "zip_cells f (weights self) X"]) (simp add: np_shape_def)
  show ?thesis
    unfolding train_epoch_def Let_def fst_conv snd_conv
    apply (rule or_raise_cases, rule same)+
    apply (rule or_raise_cases)
     apply (auto simp add: cellwise_def np_shape_def split: if_splits)
    done
qed


lemma train_loop_frame:
  "\<exists>W'. fst (snd (train_loop D n learning_rate epochs (self, w))) = self\<lparr>weights := W'\<rparr>
       \<and> np_shape W' = np_shape (weights self)"
proof (induction epochs arbitrary: self w)
  case Nil
  show ?case
    by (intro exI [of _ "weights self"]) simp
next
  case (Cons epoch epochs)
  obtain r self1 w1 where step: "train_epoch D n learning_rate epoch (self, w) = (r, self1, w1)"
    by (metis prod_cases3)
  with train_epoch_frame [of D n learning_rate epoch self w]
  obtain W1 where W1: "self1 = self\<lparr>weights := W1\<rparr>" "np_shape W1 = np_shape (weights self)"
    by auto
  show ?case
  proof (cases r)
    case (Inl e)
    with step W1 show ?thesis by auto
  next
    case (Inr u)
    from Cons.IH [of self1 w1] obtain W' where
      "fst (snd (train_loop D n learning_rate epochs (self1, w1))) = self1\<lparr>weights := W'\<rparr>"
      "np_shape W' = np_shape (weights self1)"
      by blast
    with step Inr W1 show ?thesis by auto
  qed
qed








section \<open>The invariant is that of the class\<close>

text \<open>
  The shape that the theorems above assume of the weight array is the shape the
  constructor gives it, and \<open>train\<close> keeps it.
\<close>

lemma rbm_init_inv:
  assumes "rbm_init random_state nv nh w = (Inr self, w')"
  shows "rbm_inv self \<and> rect (weights self)"
proof -
  have "np_shape (np_insert_col0 (Fin 0) (np_insert_row0 (Fin 0) (uniform g lo hi nv nh)))
      = (Suc nv, Suc nh)" for g lo hi
    by (simp add: np_shape_def nrows_def np_insert_col0_def np_insert_row0_def uniform_def)
  then show ?thesis
    using assms by (auto simp add: rbm_init_def rbm_inv_def Let_def split: if_splits)
qed

lemma train_inv:
  assumes "rbm_inv self"
  shows "rbm_inv (fst (snd (train self data max_epochs learning_rate w)))"
  using assms train_loop_frame [of "np_insert_col0 (Fin 1) data" "nrows data" learning_rate
      "[0..<nat max_epochs]" self w]
  by (auto simp add: train_def rbm_inv_def)

end
